theory Spec2Isabelle
  imports Complex_Main "HOL-Library.Sublist"
begin

section \<open>Measurement records and trimming\<close>

text \<open>
  A measurement is a decoded JSON value: a mapping, a sequence or a scalar. A Python
  \<^verbatim>\<open>str\<close> is a sequence of code points and \<^verbatim>\<open>len\<close> counts them, so strings are lists
  over an arbitrary alphabet \<open>'c\<close>, one element per code point. A \<^verbatim>\<open>dict\<close> keeps its
  insertion order and has each key once: it is an association list, and the theorems that
  depend on the keys being unique say so.
\<close>

datatype 'c json =
    JNull
  | JBool bool
  | JNum rat
  | JStr "'c list"
  | JList "'c json list"
  | JDict "('c list \<times> 'c json) list"

text \<open>
  The test of the dict branch of \<^verbatim>\<open>trim_measurement\<close>:
  \<^verbatim>\<open>type(value) == str and len(value) > max_string_size\<close>.
  The threshold comes from \<^verbatim>\<open>argparse\<close> with \<^verbatim>\<open>type=int\<close>, so it may be negative.
\<close>

fun oversized :: "'c json \<Rightarrow> int \<Rightarrow> bool" where
  "oversized (JStr s) max_string_size = (int (length s) > max_string_size)"
| "oversized _ max_string_size = False"

text \<open>\<^verbatim>\<open>del json_dict[key]\<close> on an association list.\<close>

definition del_key :: "'k \<Rightarrow> ('k \<times> 'v) list \<Rightarrow> ('k \<times> 'v) list" where
  "del_key key d = filter (\<lambda>(k, v). k \<noteq> key) d"

text \<open>
  \<^verbatim>\<open>trim_measurement\<close> is a \<^verbatim>\<open>singledispatch\<close> function with a default, a \<^verbatim>\<open>dict\<close> and a
  \<^verbatim>\<open>list\<close> implementation. The source mutates its argument and returns the same object;
  the model returns the value the object holds afterwards. In the dict branch the first loop
  collects the keys of the oversized strings and trims every other value where it sits, the
  second loop deletes the collected keys. Records are trees, as a JSON decoder builds them:
  no container object sits in two places of a record.
\<close>

fun trim_measurement :: "'c json \<Rightarrow> int \<Rightarrow> 'c json" where
  "trim_measurement (JDict json_dict) max_string_size =
     (let keys_to_delete = map fst (filter (\<lambda>(key, value). oversized value max_string_size) json_dict);
          visited = map (\<lambda>(key, value).
                      (key, if oversized value max_string_size then value
                            else trim_measurement value max_string_size)) json_dict
      in JDict (fold del_key keys_to_delete visited))"
| "trim_measurement (JList json_list) max_string_size =
     JList (map (\<lambda>item. trim_measurement item max_string_size) json_list)"
| "trim_measurement json_obj max_string_size = json_obj"

text \<open>Vocabulary for the statements: scalars, lookups, and records that hold an oversized field.\<close>

fun is_scalar :: "'c json \<Rightarrow> bool" where
  "is_scalar (JList _) = False"
| "is_scalar (JDict _) = False"
| "is_scalar _ = True"

fun has_oversized_field :: "'c json \<Rightarrow> int \<Rightarrow> bool" where
  "has_oversized_field (JDict d) n =
     (\<exists>(k, v) \<in> set d. oversized v n \<or> has_oversized_field v n)"
| "has_oversized_field (JList xs) n = (\<exists>x \<in> set xs. has_oversized_field x n)"
| "has_oversized_field _ n = False"

fun dict_get :: "'c json \<Rightarrow> 'c list \<Rightarrow> 'c json option" where
  "dict_get (JDict d) key = map_of d key"
| "dict_get _ key = None"

fun list_items :: "'c json \<Rightarrow> 'c json list" where
  "list_items (JList xs) = xs"
| "list_items _ = []"

definition oversized_keys :: "('c list \<times> 'c json) list \<Rightarrow> int \<Rightarrow> 'c list list" where
  "oversized_keys d n = map fst (filter (\<lambda>(key, value). oversized value n) d)"

section \<open>Strings and paths\<close>

text \<open>
  The strings of paths and URLs are \<^typ>\<open>string\<close>, one \<^typ>\<open>char\<close> for each character of
  the \<^verbatim>\<open>str\<close>; the functions below only look at the separators \<open>/\<close> and \<open>.\<close>, at the
  length and at a fixed suffix.

  \<^verbatim>\<open>s.split(sep, maxsplit)\<close> for a one-character separator: at most \<open>maxsplit\<close> cuts, from
  the left; \<^verbatim>\<open>s.split(sep)\<close> cuts at every separator; \<^verbatim>\<open>s.rsplit(sep, maxsplit)\<close> cuts
  from the right. The result always has at least one piece.
\<close>

fun split_max :: "char \<Rightarrow> nat \<Rightarrow> string \<Rightarrow> string list" where
  "split_max sep 0 s = [s]"
| "split_max sep (Suc maxsplit) s =
     (if sep \<in> set s
      then takeWhile (\<lambda>c. c \<noteq> sep) s
             # split_max sep maxsplit (tl (dropWhile (\<lambda>c. c \<noteq> sep) s))
      else [s])"

definition split :: "char \<Rightarrow> string \<Rightarrow> string list" where
  "split sep s = split_max sep (length s) s"

definition rsplit :: "char \<Rightarrow> nat \<Rightarrow> string \<Rightarrow> string list" where
  "rsplit sep maxsplit s = rev (map rev (split_max sep maxsplit (rev s)))"

definition endswith :: "string \<Rightarrow> string \<Rightarrow> bool" where
  "endswith s suf = suffix suf s"

text \<open>
  A \<^verbatim>\<open>pathlib\<close> path of the POSIX flavour in parsed form: the root (empty, \<open>/\<close> or \<open>//\<close>)
  and the list of segments, as \<^verbatim>\<open>posixpath.splitroot\<close> and the parser of \<^verbatim>\<open>PurePath\<close> compute
  them: empty segments and \<open>.\<close> segments are dropped, \<open>..\<close> is kept.
\<close>

record pure_path =
  root :: string
  tail :: "string list"

definition splitroot :: "string \<Rightarrow> string \<times> string" where
  "splitroot p =
     (if take 1 p \<noteq> ''/'' then ('''', p)
      else if take 1 (drop 1 p) \<noteq> ''/'' \<or> take 1 (drop 2 p) = ''/'' then (''/'', drop 1 p)
      else (''//'', drop 2 p))"

definition parse_path :: "string \<Rightarrow> pure_path" where
  "parse_path path =
     (case splitroot path of
        (rt, rel) \<Rightarrow>
          \<lparr>root = rt, tail = filter (\<lambda>x. x \<noteq> [] \<and> x \<noteq> ''.'') (split CHR ''/'' rel)\<rparr>)"

text \<open>
  The operator \<^verbatim>\<open>path / key\<close> with a \<^verbatim>\<open>str\<close> on the right (\<^verbatim>\<open>posixpath.join\<close>, then the
  parser): an absolute \<open>key\<close> replaces the path, any other \<open>key\<close> appends its segments.
\<close>

definition truediv :: "pure_path \<Rightarrow> string \<Rightarrow> pure_path" where
  "truediv p key =
     (if take 1 key = ''/'' then parse_path key
      else p\<lparr>tail := tail p @ tail (parse_path key)\<rparr>)"

text \<open>\<^verbatim>\<open>path.name\<close> and \<^verbatim>\<open>path.parent\<close>.\<close>

definition name :: "pure_path \<Rightarrow> string" where
  "name p = (if tail p = [] then [] else last (tail p))"

definition parent :: "pure_path \<Rightarrow> pure_path" where
  "parent p = p\<lparr>tail := butlast (tail p)\<rparr>"

text \<open>A string that is one segment of a path: not empty, not \<open>.\<close>, without \<open>/\<close>.\<close>

definition is_segment :: "string \<Rightarrow> bool" where
  "is_segment s = (s \<noteq> [] \<and> s \<noteq> ''.'' \<and> CHR ''/'' \<notin> set s)"

text \<open>
  The date of an entry and \<^verbatim>\<open>f'{entry.date:%Y-%m-%d}'\<close>: the year on four digits, month and
  day on two (\<^verbatim>\<open>datetime.date\<close> has years 1 to 9999; every platform agrees on \<open>%Y\<close> from
  the year 1000 on).
\<close>

record date =
  year :: nat
  month :: nat
  day :: nat

definition digit :: "nat \<Rightarrow> char" where
  "digit d = ''0123456789'' ! (d mod 10)"

definition strftime :: "date \<Rightarrow> string" where
  "strftime d =
     [digit (year d div 1000), digit (year d div 100), digit (year d div 10), digit (year d)]
     @ ''-'' @ [digit (month d div 10), digit (month d)]
     @ ''-'' @ [digit (day d div 10), digit (day d)]"

text \<open>
  A catalog entry (\<^verbatim>\<open>ooni_client.FileEntry\<close>). The module \<^verbatim>\<open>ooni_client\<close> is not among the
  sources, so the entry carries what the code reads of it: \<^verbatim>\<open>country\<close>, \<^verbatim>\<open>test_type\<close>,
  \<^verbatim>\<open>date\<close>, \<^verbatim>\<open>url.path\<close>, \<^verbatim>\<open>url.geturl()\<close>, \<^verbatim>\<open>size\<close>, and the behaviour of
  \<^verbatim>\<open>get_measurements()\<close>: the records the stream yields, the exception that ends it early
  (if any), and what consuming it adds to the client's byte and cost counters.

  Exceptions are values: \<^verbatim>\<open>CostLimitError\<close> with the byte count that its message prints,
  \<^verbatim>\<open>FileNotFoundError\<close> with the path that was not found, \<^verbatim>\<open>ValueError\<close>, and any other
  exception (an \<^verbatim>\<open>OSError\<close> with its error number, a failure of the serialiser or of the
  network) as \<open>Failure\<close> with a number that tells it apart.
\<close>

datatype exn =
    CostLimitError nat
  | FileNotFoundError pure_path
  | ValueError
  | Failure nat

record 'c file_entry =
  country :: string
  test_type :: string
  date :: date
  url_path :: string
  url :: string
  size :: nat
  measurements :: "'c json list"
  stream_err :: "exn option"
  transfer_bytes :: nat
  transfer_cost :: rat

text \<open>
  \<^verbatim>\<open>_make_local_path\<close>, lines 63 to 66: the last segment of the URL path, with its last
  two dot-separated pieces replaced by \<open>.jsonl.gz\<close> unless it ends in \<open>.jsonl.gz\<close> already.
  \<^verbatim>\<open>rsplit\<close> returns at least one piece, so \<^verbatim>\<open>[0]\<close> cannot fail.
\<close>

definition local_basename :: "string \<Rightarrow> string" where
  "local_basename path =
     (let basename = name (parse_path path)
      in if \<not> endswith basename ''.jsonl.gz''
         then hd (rsplit CHR ''.'' 2 basename) @ ''.jsonl.gz''
         else basename)"

definition make_local_path :: "pure_path \<Rightarrow> 'c file_entry \<Rightarrow> pure_path" where
  "make_local_path output_dir entry =
     truediv (truediv (truediv (truediv output_dir (country entry)) (test_type entry))
                (strftime (date entry)))
       (local_basename (url_path entry))"

section \<open>Files, the environment and a run\<close>

text \<open>
  A file written through \<^verbatim>\<open>gzip.open(..., mode='wt')\<close>: the records whose lines were
  written, in order, and whether the stream was closed, which is what writes the end of
  the compressed stream. A file whose stream was never closed is a truncated gzip file.
  The serialisation of \<^verbatim>\<open>ujson.dump\<close> is not looked into: a line is the record it holds.
\<close>

record 'c gz_file =
  written :: "'c json list"
  closed :: bool

text \<open>
  What a run does to the outside is recorded as a trace of events, oldest first, next to
  the file system (the regular files by path), the counters of the client
  (\<^verbatim>\<open>ooni.bytes_downloaded\<close>, \<^verbatim>\<open>ooni.cost_usd\<close>) and the variable \<^verbatim>\<open>num_measurements\<close> of
  \<^verbatim>\<open>main\<close>. Costs are rationals: the code only compares them.
\<close>

datatype event =
    IsFile pure_path
  | Makedirs pure_path
  | ReadCost
  | GzipOpen pure_path
  | GetMeasurements string
  | Dump pure_path nat
  | Replace pure_path pure_path
  | Close pure_path
  | Unlink pure_path
  | LogInfo string
  | LogSummary nat nat rat

record 'c world =
  files :: "pure_path \<Rightarrow> 'c gz_file option"
  bytes_downloaded :: nat
  cost_usd :: rat
  num_measurements :: nat
  trace :: "event list"

text \<open>
  The operating system and the libraries can fail. The environment says which calls do,
  and with which exception: creating the directories of a path, opening a path for
  writing, writing the i-th record of the file opened at a path, renaming a path, closing
  the stream opened at a path. \<^verbatim>\<open>unlink\<close> fails when the file is not there, and
  \<^verbatim>\<open>is_file\<close> is taken not to fail.
\<close>

record env =
  makedirs_err :: "pure_path \<Rightarrow> exn option"
  open_err :: "pure_path \<Rightarrow> exn option"
  write_err :: "pure_path \<Rightarrow> nat \<Rightarrow> exn option"
  replace_err :: "pure_path \<Rightarrow> exn option"
  close_err :: "pure_path \<Rightarrow> exn option"

text \<open>The command-line arguments that \<^verbatim>\<open>sync_file\<close> and \<^verbatim>\<open>fetch_file\<close> read.\<close>

record args =
  output_dir :: pure_path
  max_string_size :: int
  cost_limit_usd :: rat

definition log_event :: "event \<Rightarrow> 'c world \<Rightarrow> 'c world" where
  "log_event ev w = w\<lparr>trace := trace w @ [ev]\<rparr>"

definition is_file :: "'c world \<Rightarrow> pure_path \<Rightarrow> bool" where
  "is_file w p = (files w p \<noteq> None)"

text \<open>\<^verbatim>\<open>os.makedirs(path, exist_ok=True)\<close>.\<close>

definition makedirs :: "env \<Rightarrow> pure_path \<Rightarrow> 'c world \<Rightarrow> 'c world \<times> exn option" where
  "makedirs env p w =
     (let w1 = log_event (Makedirs p) w
      in case makedirs_err env p of Some e \<Rightarrow> (w1, Some e) | None \<Rightarrow> (w1, None))"

text \<open>
  \<^verbatim>\<open>path.with_name(name)\<close> raises \<^verbatim>\<open>ValueError\<close> when the path has no name or the new name
  is not one segment.
\<close>

definition with_name :: "pure_path \<Rightarrow> string \<Rightarrow> exn + pure_path" where
  "with_name p nm =
     (if name p = [] then Inl ValueError
      else if \<not> is_segment nm then Inl ValueError
      else Inr (p\<lparr>tail := butlast (tail p) @ [nm]\<rparr>))"

text \<open>
  \<^verbatim>\<open>gzip.open(path, mode='wt', ...)\<close> creates the file, or empties the one that is there.
\<close>

definition gzip_open :: "env \<Rightarrow> pure_path \<Rightarrow> 'c world \<Rightarrow> 'c world \<times> exn option" where
  "gzip_open env p w =
     (let w1 = log_event (GzipOpen p) w
      in case open_err env p of
           Some e \<Rightarrow> (w1, Some e)
         | None \<Rightarrow> (w1\<lparr>files := (files w1)(p \<mapsto> \<lparr>written = [], closed = False\<rparr>)\<rparr>, None))"

text \<open>
  \<^verbatim>\<open>ujson.dump(m, target_file)\<close> and \<^verbatim>\<open>target_file.write('\n')\<close> for the i-th record of
  the file opened at \<open>p\<close>.
\<close>

definition dump_line ::
  "env \<Rightarrow> pure_path \<Rightarrow> nat \<Rightarrow> 'c json \<Rightarrow> 'c world \<Rightarrow> 'c world \<times> exn option" where
  "dump_line env p i m w =
     (let w1 = log_event (Dump p i) w
      in case write_err env p i of
           Some e \<Rightarrow> (w1, Some e)
         | None \<Rightarrow>
             (w1\<lparr>files := (files w1)
                     (p := map_option (\<lambda>f. f\<lparr>written := written f @ [m]\<rparr>) (files w1 p))\<rparr>,
              None))"

text \<open>
  Modelled from the spec: what \<^verbatim>\<open>entry.get_measurements()\<close> does to the counters of the
  client, whose module \<^verbatim>\<open>ooni_client\<close> is missing from the sources. The spec has a shared
  pair of counters (bytes downloaded, accrued cost) that every worker adds to; here
  reading an entry adds the entry's own amounts.
\<close>

definition get_measurements :: "'c file_entry \<Rightarrow> 'c world \<Rightarrow> 'c world" where
  "get_measurements entry w =
     (log_event (GetMeasurements (url entry)) w)
       \<lparr>bytes_downloaded := bytes_downloaded w + transfer_bytes entry,
        cost_usd := cost_usd w + transfer_cost entry\<rparr>"

text \<open>The loop of lines 98 to 102 over the records that the stream yields.\<close>

fun write_measurements ::
  "env \<Rightarrow> int \<Rightarrow> pure_path \<Rightarrow> nat \<Rightarrow> 'c json list \<Rightarrow> 'c world \<Rightarrow> 'c world \<times> exn option" where
  "write_measurements env mss p i [] w = (w, None)"
| "write_measurements env mss p i (measurement # rest) w =
     (let w1 = w\<lparr>num_measurements := num_measurements w + 1\<rparr>;
          m = trim_measurement measurement mss
      in case dump_line env p i m w1 of
           (w2, Some e) \<Rightarrow> (w2, Some e)
         | (w2, None) \<Rightarrow> write_measurements env mss p (Suc i) rest w2)"

text \<open>\<^verbatim>\<open>src.replace(dst)\<close>: a rename, which moves the file with whatever it holds.\<close>

definition path_replace ::
  "env \<Rightarrow> pure_path \<Rightarrow> pure_path \<Rightarrow> 'c world \<Rightarrow> 'c world \<times> exn option" where
  "path_replace env src dst w =
     (let w1 = log_event (Replace src dst) w
      in case replace_err env src of
           Some e \<Rightarrow> (w1, Some e)
         | None \<Rightarrow>
             (case files w1 src of
                None \<Rightarrow> (w1, Some (FileNotFoundError src))
              | Some f \<Rightarrow> (w1\<lparr>files := ((files w1)(src := None))(dst \<mapsto> f)\<rparr>, None)))"

text \<open>
  The body of the \<^verbatim>\<open>with\<close> block, lines 98 to 103: the loop, the end of the stream, and
  the rename, which is still inside the block.
\<close>

definition with_body ::
  "env \<Rightarrow> args \<Rightarrow> 'c file_entry \<Rightarrow> pure_path \<Rightarrow> pure_path \<Rightarrow> 'c world
   \<Rightarrow> 'c world \<times> exn option" where
  "with_body env a entry target_file_path temp_path w =
     (let w1 = get_measurements entry w
      in case write_measurements env (max_string_size a) temp_path 0 (measurements entry) w1 of
           (w2, Some e) \<Rightarrow> (w2, Some e)
         | (w2, None) \<Rightarrow>
             (case stream_err entry of
                Some e \<Rightarrow> (w2, Some e)
              | None \<Rightarrow> path_replace env temp_path target_file_path w2))"

text \<open>
  Closing the stream that was opened at \<open>opened\<close> and whose file is now at \<open>loc\<close>: the
  open file follows a rename.
\<close>

definition gzip_close ::
  "env \<Rightarrow> pure_path \<Rightarrow> pure_path \<Rightarrow> 'c world \<Rightarrow> 'c world \<times> exn option" where
  "gzip_close env opened loc w =
     (let w1 = log_event (Close loc) w
      in case close_err env opened of
           Some e \<Rightarrow> (w1, Some e)
         | None \<Rightarrow>
             (w1\<lparr>files := (files w1)
                     (loc := map_option (\<lambda>f. f\<lparr>closed := True\<rparr>) (files w1 loc))\<rparr>,
              None))"

text \<open>
  The \<^verbatim>\<open>try\<close> block, lines 97 to 103. Leaving the \<^verbatim>\<open>with\<close> block closes the stream, also
  when the body raised; an exception raised while closing is the one that goes on.
  When the body ends without exception the file has been renamed to the target.
\<close>

definition try_block ::
  "env \<Rightarrow> args \<Rightarrow> 'c file_entry \<Rightarrow> pure_path \<Rightarrow> pure_path \<Rightarrow> 'c world
   \<Rightarrow> 'c world \<times> exn option" where
  "try_block env a entry target_file_path temp_path w =
     (case gzip_open env temp_path w of
        (w1, Some e) \<Rightarrow> (w1, Some e)
      | (w1, None) \<Rightarrow>
          (case with_body env a entry target_file_path temp_path w1 of
             (w2, None) \<Rightarrow> gzip_close env temp_path target_file_path w2
           | (w2, Some e) \<Rightarrow>
               (case gzip_close env temp_path temp_path w2 of
                  (w3, Some e') \<Rightarrow> (w3, Some e')
                | (w3, None) \<Rightarrow> (w3, Some e))))"

text \<open>\<^verbatim>\<open>path.unlink()\<close>, without \<^verbatim>\<open>missing_ok\<close>.\<close>

definition unlink :: "pure_path \<Rightarrow> 'c world \<Rightarrow> 'c world \<times> exn option" where
  "unlink p w =
     (let w1 = log_event (Unlink p) w
      in case files w1 p of
           None \<Rightarrow> (w1, Some (FileNotFoundError p))
         | Some f \<Rightarrow> (w1\<lparr>files := (files w1)(p := None)\<rparr>, None))"

text \<open>\<^verbatim>\<open>f'{n:,}'\<close> for a natural number: decimal digits in groups of three.\<close>

fun decimal :: "nat \<Rightarrow> string" where
  "decimal n = (if n < 10 then [digit n] else decimal (n div 10) @ [digit n])"

fun group3 :: "string \<Rightarrow> string" where
  "group3 (a # b # c # d # rest) = a # b # c # CHR '','' # group3 (d # rest)"
| "group3 s = s"

definition thousands :: "nat \<Rightarrow> string" where
  "thousands n = rev (group3 (rev (decimal n)))"

text \<open>The messages that \<^verbatim>\<open>sync_file\<close> and \<^verbatim>\<open>fetch_file\<close> return (lines 83 and 107).\<close>

definition skipped_message :: "'c file_entry \<Rightarrow> string" where
  "skipped_message entry = ''Skipped existing '' @ url entry @ '']''"

definition downloaded_message :: "'c file_entry \<Rightarrow> string" where
  "downloaded_message entry =
     ''Downloaded '' @ url entry @ '' ['' @ thousands (size entry) @ '' bytes]''"

text \<open>
  \<^verbatim>\<open>fetch_file\<close>, lines 86 to 107: the directories, the comparison of the cost with the
  limit, the temporary path, the \<^verbatim>\<open>try\<close> block. The handler of line 104 catches everything,
  removes the temporary file and raises again; an exception of \<^verbatim>\<open>unlink\<close> takes the place
  of the one being handled.
\<close>

definition fetch_file ::
  "env \<Rightarrow> args \<Rightarrow> 'c file_entry \<Rightarrow> pure_path \<Rightarrow> 'c world \<Rightarrow> 'c world \<times> (exn + string)" where
  "fetch_file env a entry target_file_path w =
     (case makedirs env (parent target_file_path) w of
        (w1, Some e) \<Rightarrow> (w1, Inl e)
      | (w1, None) \<Rightarrow>
          (let w2 = log_event ReadCost w1
           in if cost_usd w2 > cost_limit_usd a
              then (w2, Inl (CostLimitError (bytes_downloaded w2)))
              else
                (case with_name target_file_path (name target_file_path @ ''.tmp'') of
                   Inl e \<Rightarrow> (w2, Inl e)
                 | Inr temp_path \<Rightarrow>
                     (case try_block env a entry target_file_path temp_path w2 of
                        (w3, Some e) \<Rightarrow>
                          (case unlink temp_path w3 of
                             (w4, Some e') \<Rightarrow> (w4, Inl e')
                           | (w4, None) \<Rightarrow> (w4, Inl e))
                      | (w3, None) \<Rightarrow>
                          (w3, Inr (downloaded_message entry))))))"

text \<open>\<^verbatim>\<open>sync_file\<close>, lines 80 to 84.\<close>

definition sync_file ::
  "env \<Rightarrow> args \<Rightarrow> 'c file_entry \<Rightarrow> 'c world \<Rightarrow> 'c world \<times> (exn + string)" where
  "sync_file env a entry w =
     (let target_file_path = make_local_path (output_dir a) entry;
          w1 = log_event (IsFile target_file_path) w
      in if is_file w1 target_file_path
         then (w1, Inr (skipped_message entry))
         else fetch_file env a entry target_file_path w1)"

text \<open>
  The pool of lines 109 to 111. \<^verbatim>\<open>ThreadPool.imap_unordered\<close> runs \<^verbatim>\<open>sync_file\<close> on
  several entries at once and hands the results over as they complete; an exception
  raised in a worker is raised again in \<^verbatim>\<open>main\<close> and ends the run. The model is the
  schedule of one worker that takes the entries in the order of the list.
\<close>

fun imap_sync ::
  "env \<Rightarrow> args \<Rightarrow> 'c file_entry list \<Rightarrow> 'c world \<Rightarrow> 'c world \<times> exn option" where
  "imap_sync env a [] w = (w, None)"
| "imap_sync env a (entry # rest) w =
     (case sync_file env a entry w of
        (w1, Inl e) \<Rightarrow> (w1, Some e)
      | (w1, Inr msg) \<Rightarrow> imap_sync env a rest (log_event (LogInfo msg) w1))"

text \<open>
  \<^verbatim>\<open>main\<close>, from the state in which \<^verbatim>\<open>list_files\<close> left the client and with the entries
  it returned. An exception that leaves \<^verbatim>\<open>main\<close> ends the process with status 1;
  otherwise \<^verbatim>\<open>sys.exit(None)\<close> ends it with status 0.
\<close>

definition main ::
  "env \<Rightarrow> args \<Rightarrow> 'c file_entry list \<Rightarrow> 'c world \<Rightarrow> 'c world \<times> exn option" where
  "main env a file_entries w =
     (case imap_sync env a file_entries (w\<lparr>num_measurements := 0\<rparr>) of
        (w1, Some e) \<Rightarrow> (w1, Some e)
      | (w1, None) \<Rightarrow>
          (log_event (LogSummary (num_measurements w1) (bytes_downloaded w1) (cost_usd w1)) w1,
           None))"

definition exit_status :: "exn option \<Rightarrow> nat" where
  "exit_status r = (case r of None \<Rightarrow> 0 | Some e \<Rightarrow> 1)"

text \<open>Vocabulary for the statements.\<close>

definition no_faults :: env where
  "no_faults =
     \<lparr>makedirs_err = (\<lambda>p. None), open_err = (\<lambda>p. None), write_err = (\<lambda>p i. None),
      replace_err = (\<lambda>p. None), close_err = (\<lambda>p. None)\<rparr>"

definition valid_or_absent :: "'c world \<Rightarrow> pure_path \<Rightarrow> bool" where
  "valid_or_absent w p = (case files w p of None \<Rightarrow> True | Some f \<Rightarrow> closed f)"

fun is_download_event :: "event \<Rightarrow> bool" where
  "is_download_event (GzipOpen p) = True"
| "is_download_event (GetMeasurements u) = True"
| "is_download_event (Dump p i) = True"
| "is_download_event (Replace p q) = True"
| "is_download_event ev = False"

fun is_open_event :: "event \<Rightarrow> bool" where
  "is_open_event (GzipOpen p) = True"
| "is_open_event ev = False"

definition new_events :: "'c world \<Rightarrow> 'c world \<Rightarrow> event list" where
  "new_events w w' = drop (length (trace w)) (trace w')"

text \<open>
  The temporary path of a target (line 95), and the first exception that the environment
  and the entry's stream raise inside the \<^verbatim>\<open>with\<close> block when the file is open at the
  temporary path: while writing one of the records, at the end of the stream, or in the
  rename.
\<close>

definition temp_of :: "pure_path \<Rightarrow> pure_path" where
  "temp_of p = p\<lparr>tail := butlast (tail p) @ [name p @ ''.tmp'']\<rparr>"

fun first_write_err :: "env \<Rightarrow> pure_path \<Rightarrow> nat \<Rightarrow> nat \<Rightarrow> exn option" where
  "first_write_err env p i 0 = None"
| "first_write_err env p i (Suc n) =
     (case write_err env p i of Some e \<Rightarrow> Some e | None \<Rightarrow> first_write_err env p (Suc i) n)"

definition body_failure :: "env \<Rightarrow> 'c file_entry \<Rightarrow> pure_path \<Rightarrow> exn option" where
  "body_failure env entry temp_path =
     (case first_write_err env temp_path 0 (length (measurements entry)) of
        Some e \<Rightarrow> Some e
      | None \<Rightarrow> (case stream_err entry of Some e \<Rightarrow> Some e | None \<Rightarrow> replace_err env temp_path))"

text \<open>Concrete inputs on which the theorems below are evaluated.\<close>

definition example_entry :: "char file_entry" where
  "example_entry =
     \<lparr>country = ''XX'', test_type = ''webconnectivity'',
      date = \<lparr>year = 2021, month = 3, day = 7\<rparr>,
      url_path = ''/autoclaved/2021-03-07/web.0.tar.lz4'',
      url = ''https://example.org/autoclaved/2021-03-07/web.0.tar.lz4'',
      size = 1234,
      measurements = [JDict [(''a'', JStr ''xxxxx''), (''b'', JStr ''ok'')], JDict [(''b'', JNum 1)]],
      stream_err = None, transfer_bytes = 1234, transfer_cost = 1 / 100\<rparr>"

definition example_args :: args where
  "example_args =
     \<lparr>output_dir = \<lparr>root = ''/'', tail = [''data'']\<rparr>, max_string_size = 3, cost_limit_usd = 1\<rparr>"

definition example_target :: pure_path where
  "example_target =
     \<lparr>root = ''/'',
      tail = [''data'', ''XX'', ''webconnectivity'', ''2021-03-07'', ''web.0.jsonl.gz'']\<rparr>"

definition example_temp :: pure_path where
  "example_temp =
     \<lparr>root = ''/'',
      tail = [''data'', ''XX'', ''webconnectivity'', ''2021-03-07'', ''web.0.jsonl.gz.tmp'']\<rparr>"

definition empty_world :: "char world" where
  "empty_world =
     \<lparr>files = (\<lambda>p. None), bytes_downloaded = 0, cost_usd = 0, num_measurements = 0, trace = []\<rparr>"


definition disk_full_at_close :: env where
  "disk_full_at_close = no_faults\<lparr>close_err := (\<lambda>p. Some (Failure 28))\<rparr>"

definition open_denied :: env where
  "open_denied = no_faults\<lparr>open_err := (\<lambda>p. Some (Failure 13))\<rparr>"

definition zero_budget_args :: args where
  "zero_budget_args = example_args\<lparr>cost_limit_usd := 0\<rparr>"

definition spent_world :: "char world" where
  "spent_world = empty_world\<lparr>cost_usd := 1 / 100\<rparr>"

section \<open>Properties of trimming\<close>

lemma fold_del_key: "fold del_key ks d = filter (\<lambda>(k, v). k \<notin> set ks) d"
  by (induction ks arbitrary: d) (auto simp: del_key_def intro: filter_cong)

lemma oversized_trim: "\<not> oversized v n \<Longrightarrow> \<not> oversized (trim_measurement v n) n"
  by (cases v) (auto simp: Let_def)

lemma trim_dict_distinct:
  assumes "distinct (map fst d)"
  shows "trim_measurement (JDict d) n =
         JDict (map (\<lambda>(k, v). (k, trim_measurement v n)) (filter (\<lambda>(k, v). \<not> oversized v n) d))"
proof -
  have key: "(k \<in> set (map fst (filter (\<lambda>(key, value). oversized value n) d))) = oversized v n"
    if "(k, v) \<in> set d" for k v
  proof
    assume "k \<in> set (map fst (filter (\<lambda>(key, value). oversized value n) d))"
    then obtain v' where "(k, v') \<in> set d" "oversized v' n" by auto
    with assms that show "oversized v n" by (auto dest: eq_key_imp_eq_value)
  next
    assume "oversized v n"
    with that show "k \<in> set (map fst (filter (\<lambda>(key, value). oversized value n) d))" by force
  qed
  have "filter (\<lambda>(k, v). k \<notin> set (map fst (filter (\<lambda>(key, value). oversized value n) d)))
          (map (\<lambda>(key, value). (key, if oversized value n then value else trim_measurement value n)) d)
        = map (\<lambda>(k, v). (k, trim_measurement v n)) (filter (\<lambda>(k, v). \<not> oversized v n) d)"
    (is "filter ?P (map ?f d) = map ?g (filter ?Q d)")
  proof -
    have "filter (?P \<circ> ?f) d = filter ?Q d"
      by (rule filter_cong) (auto simp: key simp del: set_filter set_map)
    moreover have "map ?f (filter ?Q d) = map ?g (filter ?Q d)"
      by (rule map_cong) auto
    ultimately show ?thesis by (simp add: filter_map)
  qed
  then show ?thesis by (simp add: Let_def fold_del_key)
qed

lemma survivor_not_oversized:
  "(k, v) \<in> set d \<Longrightarrow> k \<notin> set (oversized_keys d n) \<Longrightarrow> \<not> oversized v n"
  unfolding oversized_keys_def by force

lemma trim_dict_general:
  "trim_measurement (JDict d) n =
   JDict (map (\<lambda>(k, v). (k, trim_measurement v n))
            (filter (\<lambda>(k, v). k \<notin> set (oversized_keys d n)) d))"
proof -
  let ?f = "\<lambda>(key, value). (key, if oversized value n then value else trim_measurement value n)"
  let ?g = "\<lambda>(k, v). (k, trim_measurement v n)"
  let ?P = "\<lambda>(k, v). k \<notin> set (oversized_keys d n)"
  have PF: "?P \<circ> ?f = ?P" by (auto simp: fun_eq_iff)
  have "filter ?P (map ?f d) = map ?f (filter ?P d)"
    by (simp only: filter_map PF)
  also have "\<dots> = map ?g (filter ?P d)"
    by (rule map_cong) (auto dest: survivor_not_oversized)
  finally show ?thesis
    by (simp add: Let_def fold_del_key oversized_keys_def)
qed

lemma oversized_keys_empty:
  "(\<And>k v. (k, v) \<in> set d \<Longrightarrow> \<not> oversized v n) \<Longrightarrow> oversized_keys d n = []"
  unfolding oversized_keys_def by (auto simp: filter_empty_conv)

lemma trim_unchanged:
  "\<not> has_oversized_field r n \<Longrightarrow> trim_measurement r n = r"
proof (induction r n rule: trim_measurement.induct)
  case (1 d n)
  have no: "\<not> oversized v n \<and> \<not> has_oversized_field v n" if "(k, v) \<in> set d" for k v
    using "1.prems" that by auto
  then have "oversized_keys d n = []"
    by (intro oversized_keys_empty) blast
  moreover have "map (\<lambda>(k, v). (k, trim_measurement v n)) d = d"
  proof (rule map_idI)
    fix x assume x: "x \<in> set d"
    obtain k v where kv: "x = (k, v)" by (cases x)
    with x no have "\<not> oversized v n" "\<not> has_oversized_field v n" by blast+
    then have "trim_measurement v n = v"
      using x kv by (intro "1.IH"[OF refl _ refl]) auto
    with kv show "(case x of (k, v) \<Rightarrow> (k, trim_measurement v n)) = x" by simp
  qed
  ultimately show ?case
    by (simp add: trim_dict_general del: trim_measurement.simps)
next
  case (2 xs n)
  then have "map (\<lambda>item. trim_measurement item n) xs = xs"
    by (intro map_idI) auto
  then show ?case by simp
qed simp_all

lemma map_of_map_filter:
  assumes "distinct (map fst d)"
  shows "map_of (map (\<lambda>(k, v). (k, f v)) (filter (\<lambda>(k, v). P v) d)) key =
         (case map_of d key of None \<Rightarrow> None | Some v \<Rightarrow> if P v then Some (f v) else None)"
  using assms
proof (induction d)
  case Nil
  then show ?case by simp
next
  case (Cons a d)
  obtain k v where a: "a = (k, v)" by (cases a)
  from Cons.prems a have notin: "k \<notin> fst ` set d" and dist: "distinct (map fst d)" by auto
  from notin have none: "map_of d k = None" by (simp add: map_of_eq_None_iff)
  show ?case
  proof (cases "key = k")
    case True
    have "map_of (map (\<lambda>(k, v). (k, f v)) (filter (\<lambda>(k, v). P v) d)) k = None"
      using Cons.IH[OF dist] none by (simp add: True[symmetric])
    with True a show ?thesis by simp
  next
    case False
    with a Cons.IH[OF dist] show ?thesis by simp
  qed
qed

text \<open>
  Claim C4. In a mapping with unique keys, trimming removes exactly the keys whose value is a
  string longer than the threshold (the pair is dropped, the string is not shortened); every
  other key stays, in the same order, with its value trimmed recursively; the result is the
  mapping itself after the mutation.
\<close>

theorem trim_dict:
  assumes "distinct (map fst json_dict)"
  shows "trim_measurement (JDict json_dict) n =
           JDict (map (\<lambda>(key, value). (key, trim_measurement value n))
                   (filter (\<lambda>(key, value). \<not> oversized value n) json_dict))
         \<and> (\<forall>key. dict_get (trim_measurement (JDict json_dict) n) key =
               (case map_of json_dict key of
                  None \<Rightarrow> None
                | Some value \<Rightarrow>
                    if (\<exists>s. value = JStr s \<and> int (length s) > n) then None
                    else Some (trim_measurement value n)))"
proof -
  have ov: "oversized v n = (\<exists>s. v = JStr s \<and> int (length s) > n)" for v :: "'a json"
    by (cases v) auto
  have eq: "trim_measurement (JDict json_dict) n =
           JDict (map (\<lambda>(key, value). (key, trim_measurement value n))
                   (filter (\<lambda>(key, value). \<not> oversized value n) json_dict))"
    by (rule trim_dict_distinct[OF assms])
  have "dict_get (trim_measurement (JDict json_dict) n) key =
               (case map_of json_dict key of
                  None \<Rightarrow> None
                | Some value \<Rightarrow>
                    if (\<exists>s. value = JStr s \<and> int (length s) > n) then None
                    else Some (trim_measurement value n))" for key
    unfolding eq dict_get.simps map_of_map_filter[OF assms, of "\<lambda>v. trim_measurement v n" "\<lambda>v. \<not> oversized v n"]
    by (auto split: option.splits simp: ov)
  with eq show ?thesis by blast
qed

theorem trim_dict_witness:
  "distinct (map fst [(''a'', JStr ''xxxxx''), (''b'', JStr ''ok''), (''c'', JDict [(''d'', JStr ''yyyyyy'')])])
   \<and> trim_measurement (JDict [(''a'', JStr ''xxxxx''), (''b'', JStr ''ok''),
          (''c'', JDict [(''d'', JStr ''yyyyyy'')])]) 3
       = JDict [(''b'', JStr ''ok''), (''c'', JDict [])]"
  using trim_dict[of "[(''a'', JStr ''xxxxx''), (''b'', JStr ''ok''), (''c'', JDict [(''d'', JStr ''yyyyyy'')])]" 3]
  by (simp add: Let_def del_key_def)

text \<open>
  Claim C7. Trimming is idempotent: trimming a trimmed record with the same threshold
  changes nothing.
\<close>

theorem trim_idem: "trim_measurement (trim_measurement r n) n = trim_measurement r n"
proof (induction r n rule: trim_measurement.induct)
  case (1 d n)
  let ?g = "\<lambda>(k, v). (k, trim_measurement v n)"
  let ?kept = "filter (\<lambda>(k, v). k \<notin> set (oversized_keys d n)) d"
  have kept: "\<not> oversized v n \<and> (k, v) \<in> set d" if "(k, v) \<in> set ?kept" for k v
    using that by (auto dest: survivor_not_oversized)
  have "oversized_keys (map ?g ?kept) n = []"
  proof (rule oversized_keys_empty)
    fix k v assume "(k, v) \<in> set (map ?g ?kept)"
    then obtain v0 where "(k, v0) \<in> set ?kept" "v = trim_measurement v0 n" by auto
    with kept show "\<not> oversized v n" by (simp add: oversized_trim)
  qed
  then have "trim_measurement (JDict (map ?g ?kept)) n = JDict (map ?g (map ?g ?kept))"
    by (simp add: trim_dict_general del: trim_measurement.simps)
  also have "map ?g (map ?g ?kept) = map ?g ?kept"
  proof -
    have "?g (?g x) = ?g x" if "x \<in> set ?kept" for x
    proof (cases x)
      case (Pair k v)
      with that kept have "\<not> oversized v n" "(k, v) \<in> set d" by blast+
      then have "trim_measurement (trim_measurement v n) n = trim_measurement v n"
        by (intro "1.IH"[OF refl _ refl])
      with Pair show ?thesis by simp
    qed
    then show ?thesis by (simp del: set_filter)
  qed
  finally show ?case
    by (simp add: trim_dict_general del: trim_measurement.simps)
next
  case (2 xs n)
  then show ?case by simp
qed simp_all

text \<open>
  Claim C8. Trimming a sequence keeps its length and the order of its elements and trims
  each element; a scalar is returned as it is, also a string longer than the threshold that
  is not the direct value of a mapping key (a string at top level or inside a sequence);
  and a record with no oversized string directly under a mapping key is returned unchanged.
\<close>

theorem trim_frame:
  "trim_measurement (JList json_list) n = JList (map (\<lambda>item. trim_measurement item n) json_list)
   \<and> length (list_items (trim_measurement (JList json_list) n)) = length json_list
   \<and> (\<forall>i < length json_list.
         list_items (trim_measurement (JList json_list) n) ! i = trim_measurement (json_list ! i) n)
   \<and> (is_scalar v \<longrightarrow> trim_measurement v n = v)
   \<and> trim_measurement (JStr s) n = JStr s
   \<and> trim_measurement (JList [JStr s]) n = JList [JStr s]
   \<and> (\<not> has_oversized_field r n \<longrightarrow> trim_measurement r n = r)"
proof -
  have "is_scalar v \<Longrightarrow> trim_measurement v n = v"
    by (cases v) simp_all
  then show ?thesis
    by (simp add: trim_unchanged)
qed

theorem trim_frame_witness:
  "(2::nat) < length [JStr ''abcdef'', JDict [(''k'', JStr ''abcdef'')], JNum 1]
   \<and> is_scalar (JStr ''abcdef'')
   \<and> \<not> has_oversized_field (JList [JStr ''abcdef'', JNum 1]) 3
   \<and> trim_measurement (JList [JStr ''abcdef'', JDict [(''k'', JStr ''abcdef'')], JNum 1]) 3
       = JList [JStr ''abcdef'', JDict [], JNum 1]
   \<and> trim_measurement (JStr ''abcdef'') 3 = JStr ''abcdef''
   \<and> trim_measurement (JList [JStr ''abcdef'', JNum 1]) 3 = JList [JStr ''abcdef'', JNum 1]"
  using trim_frame[of "[JStr ''abcdef'', JDict [(''k'', JStr ''abcdef'')], JNum 1]" 3
                       "JStr ''abcdef''" "''abcdef''" "JList [JStr ''abcdef'', JNum 1]"]
  by (simp add: Let_def del_key_def)

section \<open>Properties of path resolution\<close>

lemma split_max_nonempty: "split_max sep k s \<noteq> []"
  by (cases k) auto

lemma split_max_no_sep: "sep \<notin> set s \<Longrightarrow> split_max sep k s = [s]"
  by (cases k) auto

lemma takeWhile_until_sep: "sep \<notin> set a \<Longrightarrow> takeWhile (\<lambda>c. c \<noteq> sep) (a @ sep # r) = a"
  by (induction a) auto

lemma dropWhile_until_sep: "sep \<notin> set a \<Longrightarrow> dropWhile (\<lambda>c. c \<noteq> sep) (a @ sep # r) = sep # r"
  by (induction a) auto

lemma split_max_cut:
  "sep \<notin> set a \<Longrightarrow> split_max sep (Suc k) (a @ sep # r) = a # split_max sep k r"
  by (simp add: takeWhile_until_sep dropWhile_until_sep)

lemma set_tl_subset: "set (tl xs) \<subseteq> set xs"
  by (cases xs) auto

lemma split_max_subset: "x \<in> set (split_max sep k s) \<Longrightarrow> set x \<subseteq> set s"
proof (induction k arbitrary: s)
  case 0
  then show ?case by simp
next
  case (Suc k)
  show ?case
  proof (cases "sep \<in> set s")
    case False
    with Suc.prems show ?thesis by simp
  next
    case True
    with Suc.prems consider "x = takeWhile (\<lambda>c. c \<noteq> sep) s"
      | "x \<in> set (split_max sep k (tl (dropWhile (\<lambda>c. c \<noteq> sep) s)))" by auto
    then show ?thesis
    proof cases
      case 1
      then show ?thesis by (auto dest: set_takeWhileD)
    next
      case 2
      from Suc.IH[OF 2] have "set x \<subseteq> set (tl (dropWhile (\<lambda>c. c \<noteq> sep) s))" .
      also have "\<dots> \<subseteq> set (dropWhile (\<lambda>c. c \<noteq> sep) s)"
        by (rule set_tl_subset)
      also have "\<dots> \<subseteq> set s" by (auto dest: set_dropWhileD)
      finally show ?thesis .
    qed
  qed
qed

lemma split_max_pieces_free:
  "length s \<le> k \<Longrightarrow> x \<in> set (split_max sep k s) \<Longrightarrow> sep \<notin> set x"
proof (induction k arbitrary: s)
  case 0
  then show ?case by simp
next
  case (Suc k)
  show ?case
  proof (cases "sep \<in> set s")
    case False
    with Suc.prems show ?thesis by simp
  next
    case True
    then have "dropWhile (\<lambda>c. c \<noteq> sep) s \<noteq> []" by simp
    then have "length (tl (dropWhile (\<lambda>c. c \<noteq> sep) s)) < length (dropWhile (\<lambda>c. c \<noteq> sep) s)"
      by (cases "dropWhile (\<lambda>c. c \<noteq> sep) s") auto
    also have "\<dots> \<le> length s" by (rule length_dropWhile_le)
    finally have len: "length (tl (dropWhile (\<lambda>c. c \<noteq> sep) s)) \<le> k"
      using Suc.prems(1) by simp
    from True Suc.prems consider "x = takeWhile (\<lambda>c. c \<noteq> sep) s"
      | "x \<in> set (split_max sep k (tl (dropWhile (\<lambda>c. c \<noteq> sep) s)))" by auto
    then show ?thesis
    proof cases
      case 1
      then show ?thesis by (auto dest: set_takeWhileD)
    next
      case 2
      with Suc.IH[OF len] show ?thesis .
    qed
  qed
qed

lemma split_pieces_free: "x \<in> set (split sep s) \<Longrightarrow> sep \<notin> set x"
  unfolding split_def by (rule split_max_pieces_free[OF le_refl])



lemma rsplit_two:
  assumes "sep \<notin> set b" "sep \<notin> set c"
  shows "rsplit sep 2 (a @ sep # b @ sep # c) = [a, b, c]"
proof -
  have "rev (a @ sep # b @ sep # c) = rev c @ sep # (rev b @ sep # rev a)" by simp
  moreover have "split_max sep (Suc (Suc 0)) (rev c @ sep # (rev b @ sep # rev a)) = [rev c, rev b, rev a]"
    using assms by (simp only: split_max_cut set_rev split_max.simps(1) not_False_eq_True)
  ultimately show ?thesis
    by (simp add: rsplit_def numeral_2_eq_2 del: split_max.simps)
qed

lemma hd_rsplit_subset: "set (hd (rsplit sep k s)) \<subseteq> set s"
proof -
  have ne: "split_max sep k (rev s) \<noteq> []" by (rule split_max_nonempty)
  then have "hd (rsplit sep k s) = rev (last (split_max sep k (rev s)))"
    by (simp add: rsplit_def hd_rev last_map)
  moreover have "last (split_max sep k (rev s)) \<in> set (split_max sep k (rev s))"
    using ne by simp
  ultimately show ?thesis
    using split_max_subset[of "last (split_max sep k (rev s))" sep k "rev s"] by simp
qed

lemma parse_path_segment:
  assumes "is_segment s"
  shows "parse_path s = \<lparr>root = [], tail = [s]\<rparr>"
proof -
  from assms have s: "s \<noteq> []" "s \<noteq> ''.''" "CHR ''/'' \<notin> set s"
    by (simp_all add: is_segment_def)
  then have "take 1 s \<noteq> ''/''" by (cases s) auto
  then have "splitroot s = ([], s)" by (simp add: splitroot_def)
  moreover have "split CHR ''/'' s = [s]"
    using s(3) by (simp add: split_def split_max_no_sep)
  ultimately show ?thesis using s by (simp add: parse_path_def)
qed

lemma truediv_segment: "is_segment s \<Longrightarrow> truediv p s = p\<lparr>tail := tail p @ [s]\<rparr>"
proof -
  assume seg: "is_segment s"
  then have "take 1 s \<noteq> ''/''" by (cases s) (auto simp: is_segment_def)
  with seg show ?thesis by (simp add: truediv_def parse_path_segment)
qed

lemma name_segment: "name (parse_path p) = [] \<or> is_segment (name (parse_path p))"
proof (cases "tail (parse_path p) = []")
  case True
  then show ?thesis by (simp add: name_def)
next
  case False
  then have "last (tail (parse_path p)) \<in> set (tail (parse_path p))" by simp
  then have "is_segment (last (tail (parse_path p)))"
    by (auto simp: parse_path_def is_segment_def split: prod.splits dest: split_pieces_free)
  with False show ?thesis by (simp add: name_def)
qed




lemma local_basename_segment: "is_segment (local_basename p)"
proof (cases "endswith (name (parse_path p)) ''.jsonl.gz''")
  case True
  then have "name (parse_path p) \<noteq> []"
    by (auto simp: endswith_def)
  with name_segment[of p] True show ?thesis
    by (simp add: local_basename_def)
next
  case False
  have "CHR ''/'' \<notin> set (name (parse_path p))"
    using name_segment[of p] by (auto simp: is_segment_def)
  then have "CHR ''/'' \<notin> set (hd (rsplit CHR ''.'' 2 (name (parse_path p))))"
    using hd_rsplit_subset[of "CHR ''.''" 2 "name (parse_path p)"] by blast
  with False show ?thesis
    by (auto simp: local_basename_def is_segment_def)
qed



section \<open>Properties of a run\<close>

subsection \<open>The primitive operations\<close>

lemma log_event_simps [simp]:
  "files (log_event ev w) = files w"
  "cost_usd (log_event ev w) = cost_usd w"
  "bytes_downloaded (log_event ev w) = bytes_downloaded w"
  "num_measurements (log_event ev w) = num_measurements w"
  "trace (log_event ev w) = trace w @ [ev]"
  by (simp_all add: log_event_def)

lemma is_file_log_event [simp]: "is_file (log_event ev w) p = is_file w p"
  by (simp add: is_file_def)

lemma is_file_reset [simp]: "is_file (w\<lparr>num_measurements := n\<rparr>) p = is_file w p"
  by (simp add: is_file_def)

lemma temp_of_neq: "temp_of p \<noteq> p"
proof
  assume "temp_of p = p"
  then have eq: "butlast (tail p) @ [name p @ ''.tmp''] = tail p"
    by (simp add: temp_of_def) (metis pure_path.select_convs(2) pure_path.surjective pure_path.update_convs(2))
  then have "tail p \<noteq> []" by auto
  with eq have "name p @ ''.tmp'' = last (tail p)"
    by (metis last_snoc)
  with \<open>tail p \<noteq> []\<close> show False by (simp add: name_def)
qed

lemma with_name_tmp:
  assumes "is_segment (name p)"
  shows "with_name p (name p @ ''.tmp'') = Inr (temp_of p)"
proof -
  from assms have "name p \<noteq> []" "is_segment (name p @ ''.tmp'')"
    by (auto simp: is_segment_def)
  then show ?thesis by (simp add: with_name_def temp_of_def)
qed

lemma name_make_local_path: "name (make_local_path out entry) = local_basename (url_path entry)"
  by (simp add: make_local_path_def truediv_segment local_basename_segment name_def)

lemma with_name_local_path:
  "with_name (make_local_path out entry) (name (make_local_path out entry) @ ''.tmp'')
   = Inr (temp_of (make_local_path out entry))"
  by (rule with_name_tmp) (simp add: name_make_local_path local_basename_segment)

subsection \<open>The loop over the records\<close>

lemma write_measurements_result:
  "snd (write_measurements env mss p i ms w) = first_write_err env p i (length ms)"
  by (induction ms arbitrary: i w)
     (auto simp: dump_line_def Let_def split: option.splits prod.splits)

lemma write_measurements_other:
  "q \<noteq> p \<Longrightarrow> files (fst (write_measurements env mss p i ms w)) q = files w q"
  by (induction ms arbitrary: i w)
     (auto simp: dump_line_def Let_def split: option.splits prod.splits)

lemma write_measurements_counters:
  "cost_usd (fst (write_measurements env mss p i ms w)) = cost_usd w"
  "bytes_downloaded (fst (write_measurements env mss p i ms w)) = bytes_downloaded w"
  by (induction ms arbitrary: i w)
     (auto simp: dump_line_def Let_def split: option.splits prod.splits)

lemma write_measurements_open:
  "files w p = Some f \<Longrightarrow>
   \<exists>ms'. files (fst (write_measurements env mss p i ms w)) p = Some (f\<lparr>written := written f @ ms'\<rparr>)"
proof (induction ms arbitrary: i w f)
  case Nil
  then show ?case by (auto intro: exI[of _ "[]"])
next
  case (Cons m ms)
  show ?case
  proof (cases "write_err env p i")
    case (Some e)
    with Cons.prems show ?thesis
      by (auto simp: dump_line_def Let_def intro: exI[of _ "[]"])
  next
    case None
    let ?w2 = "fst (dump_line env p i (trim_measurement m mss) (w\<lparr>num_measurements := num_measurements w + 1\<rparr>))"
    have f2: "files ?w2 p = Some (f\<lparr>written := written f @ [trim_measurement m mss]\<rparr>)"
      using None Cons.prems by (simp add: dump_line_def Let_def)
    from Cons.IH[OF f2, of "Suc i"] obtain ms' where
      "files (fst (write_measurements env mss p (Suc i) ms ?w2)) p
       = Some (f\<lparr>written := written f @ [trim_measurement m mss] @ ms'\<rparr>)"
      by auto
    then show ?thesis
      using None by (auto simp: dump_line_def Let_def intro!: exI[of _ "trim_measurement m mss # ms'"])
  qed
qed

lemma write_measurements_all:
  "files w p = Some f \<Longrightarrow> first_write_err env p i (length ms) = None \<Longrightarrow>
   files (fst (write_measurements env mss p i ms w)) p
   = Some (f\<lparr>written := written f @ map (\<lambda>m. trim_measurement m mss) ms\<rparr>)"
proof (induction ms arbitrary: i w f)
  case Nil
  then show ?case by simp
next
  case (Cons m ms)
  from Cons.prems(2) have none: "write_err env p i = None"
    and rest: "first_write_err env p (Suc i) (length ms) = None"
    by (auto split: option.splits)
  let ?w2 = "fst (dump_line env p i (trim_measurement m mss) (w\<lparr>num_measurements := num_measurements w + 1\<rparr>))"
  have f2: "files ?w2 p = Some (f\<lparr>written := written f @ [trim_measurement m mss]\<rparr>)"
    using none Cons.prems(1) by (simp add: dump_line_def Let_def)
  from Cons.IH[OF f2 rest] show ?case
    using none by (simp add: dump_line_def Let_def)
qed

lemma write_measurements_trace:
  "\<exists>evs. trace (fst (write_measurements env mss p i ms w)) = trace w @ evs
         \<and> (\<forall>ev \<in> set evs. \<exists>j. ev = Dump p j)"
proof (induction ms arbitrary: i w)
  case Nil
  then show ?case by simp
next
  case (Cons m ms)
  show ?case
  proof (cases "write_err env p i")
    case (Some e)
    then show ?thesis by (simp add: dump_line_def Let_def)
  next
    case None
    let ?w2 = "fst (dump_line env p i (trim_measurement m mss) (w\<lparr>num_measurements := num_measurements w + 1\<rparr>))"
    from Cons.IH[of "Suc i" ?w2] obtain evs where
      "trace (fst (write_measurements env mss p (Suc i) ms ?w2)) = trace ?w2 @ evs"
      "\<forall>ev \<in> set evs. \<exists>j. ev = Dump p j" by blast
    then show ?thesis
      using None by (auto simp: dump_line_def Let_def intro!: exI[of _ "Dump p i # evs"])
  qed
qed

subsection \<open>The with block and the try block\<close>

lemma with_body_result:
  "files w temp_path = Some f \<Longrightarrow>
   snd (with_body env a entry target temp_path w) = body_failure env entry temp_path"
proof -
  assume f: "files w temp_path = Some f"
  let ?w1 = "get_measurements entry w"
  let ?r = "write_measurements env (max_string_size a) temp_path 0 (measurements entry) ?w1"
  have r: "snd ?r = first_write_err env temp_path 0 (length (measurements entry))"
    by (rule write_measurements_result)
  have "files ?w1 temp_path = Some f" using f by (simp add: get_measurements_def)
  from write_measurements_open[OF this] obtain ms' where
    "files (fst ?r) temp_path = Some (f\<lparr>written := written f @ ms'\<rparr>)" by blast
  then show ?thesis
    using r
    by (cases ?r)
       (auto simp: with_body_def body_failure_def path_replace_def Let_def
             split: option.splits)
qed

lemma with_body_files_ok:
  assumes "files w temp_path = Some f" "body_failure env entry temp_path = None"
  shows "files (fst (with_body env a entry target temp_path w)) =
         ((files w)(temp_path := None))
           (target \<mapsto> f\<lparr>written := written f
                            @ map (\<lambda>m. trim_measurement m (max_string_size a)) (measurements entry)\<rparr>)"
proof -
  let ?w1 = "get_measurements entry w"
  let ?r = "write_measurements env (max_string_size a) temp_path 0 (measurements entry) ?w1"
  from assms(2) have none: "first_write_err env temp_path 0 (length (measurements entry)) = None"
    and s: "stream_err entry = None" and rp: "replace_err env temp_path = None"
    by (auto simp: body_failure_def split: option.splits)
  have f1: "files ?w1 temp_path = Some f" using assms(1) by (simp add: get_measurements_def)
  have at: "files (fst ?r) temp_path = Some (f\<lparr>written := written f
        @ map (\<lambda>m. trim_measurement m (max_string_size a)) (measurements entry)\<rparr>)"
    by (rule write_measurements_all[OF f1 none])
  have other: "files (fst ?r) q = files w q" if "q \<noteq> temp_path" for q
    using write_measurements_other[OF that, of env "max_string_size a" 0 "measurements entry" ?w1]
    by (simp add: get_measurements_def)
  have r: "snd ?r = None" using none by (simp add: write_measurements_result)
  have "files (fst (with_body env a entry target temp_path w)) q =
        (((files w)(temp_path := None))
           (target \<mapsto> f\<lparr>written := written f
              @ map (\<lambda>m. trim_measurement m (max_string_size a)) (measurements entry)\<rparr>)) q" for q
    using r at other[of q] s rp
    by (cases ?r) (auto simp: with_body_def path_replace_def Let_def)
  then show ?thesis by (rule ext)
qed

lemma with_body_files_fail:
  assumes "files w temp_path = Some f" "body_failure env entry temp_path = Some e"
  shows "(\<exists>ms'. files (fst (with_body env a entry target temp_path w)) temp_path
                 = Some (f\<lparr>written := written f @ ms'\<rparr>))
         \<and> (\<forall>q. q \<noteq> temp_path \<longrightarrow>
                files (fst (with_body env a entry target temp_path w)) q = files w q)"
proof -
  let ?w1 = "get_measurements entry w"
  let ?r = "write_measurements env (max_string_size a) temp_path 0 (measurements entry) ?w1"
  have f1: "files ?w1 temp_path = Some f" using assms(1) by (simp add: get_measurements_def)
  from write_measurements_open[OF f1] obtain ms' where
    at: "files (fst ?r) temp_path = Some (f\<lparr>written := written f @ ms'\<rparr>)" by blast
  have other: "files (fst ?r) q = files w q" if "q \<noteq> temp_path" for q
    using write_measurements_other[OF that, of env "max_string_size a" 0 "measurements entry" ?w1]
    by (simp add: get_measurements_def)
  have r: "snd ?r = first_write_err env temp_path 0 (length (measurements entry))"
    by (rule write_measurements_result)
  have "files (fst (with_body env a entry target temp_path w)) = files (fst ?r)"
    using r at assms(2)
    by (cases ?r)
       (auto simp: with_body_def body_failure_def path_replace_def Let_def split: option.splits)
  with at other show ?thesis by auto
qed

lemma with_body_counters_trace:
  "\<exists>evs. trace (fst (with_body env a entry target temp_path w))
           = trace w @ GetMeasurements (url entry) # evs
         \<and> (\<forall>ev \<in> set evs. \<not> is_open_event ev)"
proof -
  let ?w1 = "get_measurements entry w"
  let ?r = "write_measurements env (max_string_size a) temp_path 0 (measurements entry) ?w1"
  from write_measurements_trace[of env "max_string_size a" temp_path 0 "measurements entry" ?w1]
  obtain evs where tr: "trace (fst ?r) = trace w @ GetMeasurements (url entry) # evs"
    and d: "\<forall>ev \<in> set evs. \<exists>j. ev = Dump temp_path j"
    by (auto simp: get_measurements_def)
  from d have no: "\<forall>ev \<in> set evs. \<not> is_open_event ev" by auto
  show ?thesis
  proof (cases ?r)
    case (Pair w2 r2)
    show ?thesis
    proof (cases "r2 = None \<and> stream_err entry = None")
      case False
      with Pair tr no show ?thesis
        by (auto simp: with_body_def Let_def split: option.splits)
    next
      case True
      have "trace (fst (path_replace env temp_path target w2))
              = trace w2 @ [Replace temp_path target]"
        by (simp add: path_replace_def Let_def split: option.splits)
      with Pair tr True have "trace (fst (with_body env a entry target temp_path w))
          = trace w @ GetMeasurements (url entry) # (evs @ [Replace temp_path target])"
        by (simp add: with_body_def Let_def)
      moreover have "\<forall>ev \<in> set (evs @ [Replace temp_path target]). \<not> is_open_event ev"
        using no by simp
      ultimately show ?thesis by blast
    qed
  qed
qed

lemma gzip_open_ok:
  "open_err env p = None \<Longrightarrow>
   gzip_open env p w =
     ((log_event (GzipOpen p) w)\<lparr>files := (files w)(p \<mapsto> \<lparr>written = [], closed = False\<rparr>)\<rparr>, None)"
  by (simp add: gzip_open_def Let_def)

lemma try_block_open_fails:
  "open_err env temp_path = Some e \<Longrightarrow>
   try_block env a entry target temp_path w = (log_event (GzipOpen temp_path) w, Some e)"
  by (simp add: try_block_def gzip_open_def Let_def)

lemma try_block_body_fails:
  assumes "open_err env temp_path = None" "body_failure env entry temp_path = Some e"
  shows "snd (try_block env a entry target temp_path w)
           = Some (case close_err env temp_path of None \<Rightarrow> e | Some e' \<Rightarrow> e')
         \<and> files (fst (try_block env a entry target temp_path w)) temp_path \<noteq> None
         \<and> (\<forall>q. q \<noteq> temp_path \<longrightarrow>
               files (fst (try_block env a entry target temp_path w)) q = files w q)"
proof -
  let ?w1 = "(log_event (GzipOpen temp_path) w)
               \<lparr>files := (files w)(temp_path \<mapsto> \<lparr>written = [], closed = False\<rparr>)\<rparr>"
  let ?b = "with_body env a entry target temp_path ?w1"
  have f1: "files ?w1 temp_path = Some \<lparr>written = [], closed = False\<rparr>" by simp
  have res: "snd ?b = Some e"
    using with_body_result[OF f1, of env a entry target] assms(2) by simp
  from with_body_files_fail[OF f1 assms(2), of a target]
  obtain ms' where at: "files (fst ?b) temp_path = Some \<lparr>written = ms', closed = False\<rparr>"
    and other: "\<And>q. q \<noteq> temp_path \<Longrightarrow> files (fst ?b) q = files w q"
    by auto
  show ?thesis
    using res at other assms(1)
    by (cases ?b; cases "close_err env temp_path")
       (auto simp: try_block_def gzip_open_ok gzip_close_def Let_def)
qed

lemma try_block_close_fails:
  assumes "open_err env temp_path = None" "body_failure env entry temp_path = None"
    and "close_err env temp_path = Some e"
  shows "snd (try_block env a entry target temp_path w) = Some e
         \<and> files (fst (try_block env a entry target temp_path w)) =
             ((files w)(temp_path := None))
               (target \<mapsto> \<lparr>written = map (\<lambda>m. trim_measurement m (max_string_size a))
                                           (measurements entry),
                             closed = False\<rparr>)"
proof -
  let ?w1 = "(log_event (GzipOpen temp_path) w)
               \<lparr>files := (files w)(temp_path \<mapsto> \<lparr>written = [], closed = False\<rparr>)\<rparr>"
  let ?b = "with_body env a entry target temp_path ?w1"
  have f1: "files ?w1 temp_path = Some \<lparr>written = [], closed = False\<rparr>" by simp
  have res: "snd ?b = None"
    using with_body_result[OF f1, of env a entry target] assms(2) by simp
  have fs: "files (fst ?b) = ((files w)(temp_path := None))
               (target \<mapsto> \<lparr>written = map (\<lambda>m. trim_measurement m (max_string_size a))
                                           (measurements entry),
                             closed = False\<rparr>)"
    using with_body_files_ok[OF f1 assms(2), of a target] by simp
  show ?thesis
    using res fs assms(1,3)
    by (cases ?b) (auto simp: try_block_def gzip_open_ok gzip_close_def Let_def)
qed

lemma try_block_ok:
  assumes "open_err env temp_path = None" "body_failure env entry temp_path = None"
    and "close_err env temp_path = None"
  shows "snd (try_block env a entry target temp_path w) = None
         \<and> files (fst (try_block env a entry target temp_path w)) =
             ((files w)(temp_path := None))
               (target \<mapsto> \<lparr>written = map (\<lambda>m. trim_measurement m (max_string_size a))
                                           (measurements entry),
                             closed = True\<rparr>)"
proof -
  let ?w1 = "(log_event (GzipOpen temp_path) w)
               \<lparr>files := (files w)(temp_path \<mapsto> \<lparr>written = [], closed = False\<rparr>)\<rparr>"
  let ?b = "with_body env a entry target temp_path ?w1"
  have f1: "files ?w1 temp_path = Some \<lparr>written = [], closed = False\<rparr>" by simp
  have res: "snd ?b = None"
    using with_body_result[OF f1, of env a entry target] assms(2) by simp
  have fs: "files (fst ?b) = ((files w)(temp_path := None))
               (target \<mapsto> \<lparr>written = map (\<lambda>m. trim_measurement m (max_string_size a))
                                           (measurements entry),
                             closed = False\<rparr>)"
    using with_body_files_ok[OF f1 assms(2), of a target] by simp
  show ?thesis
    using res fs assms(1,3)
    by (cases ?b) (auto simp: try_block_def gzip_open_ok gzip_close_def Let_def)
qed

lemma gzip_close_trace: "trace (fst (gzip_close env opened loc w)) = trace w @ [Close loc]"
  by (simp add: gzip_close_def Let_def split: option.splits)

lemma try_block_trace:
  "\<exists>evs. trace (fst (try_block env a entry target temp_path w))
           = trace w @ GzipOpen temp_path # evs
         \<and> (\<forall>ev \<in> set evs. \<not> is_open_event ev)"
proof (cases "open_err env temp_path")
  case (Some e)
  then show ?thesis by (simp add: try_block_open_fails)
next
  case None
  let ?w1 = "(log_event (GzipOpen temp_path) w)
               \<lparr>files := (files w)(temp_path \<mapsto> \<lparr>written = [], closed = False\<rparr>)\<rparr>"
  let ?b = "with_body env a entry target temp_path ?w1"
  from with_body_counters_trace[of env a entry target temp_path ?w1]
  obtain evs where tr: "trace (fst ?b) = trace w @ GzipOpen temp_path # GetMeasurements (url entry) # evs"
    and no: "\<forall>ev \<in> set evs. \<not> is_open_event ev"
    by auto
  obtain w2 r2 where b: "?b = (w2, r2)" by (cases ?b)
  define loc where "loc = (if r2 = None then target else temp_path)"
  have "trace (fst (try_block env a entry target temp_path w)) = trace w2 @ [Close loc]"
    using None b gzip_close_trace[of env temp_path loc w2]
    by (cases r2; cases "gzip_close env temp_path loc w2")
       (auto simp: try_block_def gzip_open_ok loc_def split: option.splits)
  with tr b have "trace (fst (try_block env a entry target temp_path w))
      = trace w @ GzipOpen temp_path # (GetMeasurements (url entry) # evs @ [Close loc])"
    by simp
  moreover have "\<forall>ev \<in> set (GetMeasurements (url entry) # evs @ [Close loc]). \<not> is_open_event ev"
    using no by simp
  ultimately show ?thesis by blast
qed

subsection \<open>One entry\<close>

lemma sync_file_skipped:
  "is_file w (make_local_path (output_dir a) entry) \<Longrightarrow>
   sync_file env a entry w =
     (log_event (IsFile (make_local_path (output_dir a) entry)) w,
      Inr (skipped_message entry))"
  by (simp add: sync_file_def Let_def)

lemma sync_file_makedirs_fails:
  "\<not> is_file w (make_local_path (output_dir a) entry) \<Longrightarrow>
   makedirs_err env (parent (make_local_path (output_dir a) entry)) = Some e \<Longrightarrow>
   sync_file env a entry w =
     (log_event (Makedirs (parent (make_local_path (output_dir a) entry)))
        (log_event (IsFile (make_local_path (output_dir a) entry)) w), Inl e)"
  by (simp add: sync_file_def fetch_file_def makedirs_def Let_def)

lemma sync_file_over_budget:
  "\<not> is_file w (make_local_path (output_dir a) entry) \<Longrightarrow>
   makedirs_err env (parent (make_local_path (output_dir a) entry)) = None \<Longrightarrow>
   cost_usd w > cost_limit_usd a \<Longrightarrow>
   sync_file env a entry w =
     (log_event ReadCost
       (log_event (Makedirs (parent (make_local_path (output_dir a) entry)))
         (log_event (IsFile (make_local_path (output_dir a) entry)) w)),
      Inl (CostLimitError (bytes_downloaded w)))"
  by (simp add: sync_file_def fetch_file_def makedirs_def Let_def)

lemma sync_file_within_budget:
  assumes "\<not> is_file w (make_local_path (output_dir a) entry)"
    and "makedirs_err env (parent (make_local_path (output_dir a) entry)) = None"
    and "cost_usd w \<le> cost_limit_usd a"
  shows "sync_file env a entry w =
     (case try_block env a entry (make_local_path (output_dir a) entry)
             (temp_of (make_local_path (output_dir a) entry))
             (log_event ReadCost
               (log_event (Makedirs (parent (make_local_path (output_dir a) entry)))
                 (log_event (IsFile (make_local_path (output_dir a) entry)) w))) of
        (w3, Some e) \<Rightarrow>
          (case unlink (temp_of (make_local_path (output_dir a) entry)) w3 of
             (w4, Some e') \<Rightarrow> (w4, Inl e')
           | (w4, None) \<Rightarrow> (w4, Inl e))
      | (w3, None) \<Rightarrow>
          (w3, Inr (downloaded_message entry)))"
  using assms
  by (simp add: sync_file_def fetch_file_def makedirs_def Let_def with_name_local_path)

lemma unlink_present:
  "files w p = Some f \<Longrightarrow> unlink p w = ((log_event (Unlink p) w)\<lparr>files := (files w)(p := None)\<rparr>, None)"
  by (simp add: unlink_def Let_def)

lemma unlink_absent:
  "files w p = None \<Longrightarrow> unlink p w = (log_event (Unlink p) w, Some (FileNotFoundError p))"
  by (simp add: unlink_def Let_def)

lemma sync_file_open_fails_absent:
  assumes "\<not> is_file w (make_local_path (output_dir a) entry)"
    and "makedirs_err env (parent (make_local_path (output_dir a) entry)) = None"
    and "cost_usd w \<le> cost_limit_usd a"
    and "open_err env (temp_of (make_local_path (output_dir a) entry)) = Some e"
    and "files w (temp_of (make_local_path (output_dir a) entry)) = None"
  shows "snd (sync_file env a entry w)
           = Inl (FileNotFoundError (temp_of (make_local_path (output_dir a) entry)))
         \<and> files (fst (sync_file env a entry w)) = files w"
  using assms(4,5)
  by (simp add: sync_file_within_budget[OF assms(1-3)] try_block_open_fails unlink_absent)

lemma sync_file_open_fails_stale:
  assumes "\<not> is_file w (make_local_path (output_dir a) entry)"
    and "makedirs_err env (parent (make_local_path (output_dir a) entry)) = None"
    and "cost_usd w \<le> cost_limit_usd a"
    and "open_err env (temp_of (make_local_path (output_dir a) entry)) = Some e"
    and "files w (temp_of (make_local_path (output_dir a) entry)) = Some f"
  shows "snd (sync_file env a entry w) = Inl e
         \<and> files (fst (sync_file env a entry w))
             = (files w)(temp_of (make_local_path (output_dir a) entry) := None)"
  using assms(4,5)
  by (simp add: sync_file_within_budget[OF assms(1-3)] try_block_open_fails unlink_present)

lemma sync_file_body_fails:
  assumes "\<not> is_file w (make_local_path (output_dir a) entry)"
    and "makedirs_err env (parent (make_local_path (output_dir a) entry)) = None"
    and "cost_usd w \<le> cost_limit_usd a"
    and "open_err env (temp_of (make_local_path (output_dir a) entry)) = None"
    and "body_failure env entry (temp_of (make_local_path (output_dir a) entry)) = Some e"
  shows "snd (sync_file env a entry w)
           = Inl (case close_err env (temp_of (make_local_path (output_dir a) entry)) of
                    None \<Rightarrow> e | Some e' \<Rightarrow> e')
         \<and> files (fst (sync_file env a entry w))
             = (files w)(temp_of (make_local_path (output_dir a) entry) := None)"
proof -
  let ?t = "make_local_path (output_dir a) entry"
  let ?w2 = "log_event ReadCost (log_event (Makedirs (parent ?t)) (log_event (IsFile ?t) w))"
  let ?r = "try_block env a entry ?t (temp_of ?t) ?w2"
  from try_block_body_fails[OF assms(4,5), of a ?t ?w2]
  have res: "snd ?r = Some (case close_err env (temp_of ?t) of None \<Rightarrow> e | Some e' \<Rightarrow> e')"
    and at: "files (fst ?r) (temp_of ?t) \<noteq> None"
    and other: "\<And>q. q \<noteq> temp_of ?t \<Longrightarrow> files (fst ?r) q = files w q"
    by auto
  from at obtain f where f: "files (fst ?r) (temp_of ?t) = Some f" by auto
  have "(files (fst ?r))(temp_of ?t := None) = (files w)(temp_of ?t := None)"
    using other by (auto simp: fun_eq_iff)
  then show ?thesis
    using res f
    by (cases ?r) (simp add: sync_file_within_budget[OF assms(1-3)] unlink_present)
qed

lemma sync_file_close_fails:
  assumes "\<not> is_file w (make_local_path (output_dir a) entry)"
    and "makedirs_err env (parent (make_local_path (output_dir a) entry)) = None"
    and "cost_usd w \<le> cost_limit_usd a"
    and "open_err env (temp_of (make_local_path (output_dir a) entry)) = None"
    and "body_failure env entry (temp_of (make_local_path (output_dir a) entry)) = None"
    and "close_err env (temp_of (make_local_path (output_dir a) entry)) = Some e"
  shows "snd (sync_file env a entry w)
           = Inl (FileNotFoundError (temp_of (make_local_path (output_dir a) entry)))
         \<and> files (fst (sync_file env a entry w))
             = ((files w)(temp_of (make_local_path (output_dir a) entry) := None))
                 (make_local_path (output_dir a) entry \<mapsto>
                    \<lparr>written = map (\<lambda>m. trim_measurement m (max_string_size a)) (measurements entry),
                     closed = False\<rparr>)"
proof -
  let ?t = "make_local_path (output_dir a) entry"
  let ?w2 = "log_event ReadCost (log_event (Makedirs (parent ?t)) (log_event (IsFile ?t) w))"
  let ?r = "try_block env a entry ?t (temp_of ?t) ?w2"
  from try_block_close_fails[OF assms(4-6), of a ?t ?w2]
  have res: "snd ?r = Some e"
    and fs: "files (fst ?r) = ((files w)(temp_of ?t := None))
               (?t \<mapsto> \<lparr>written = map (\<lambda>m. trim_measurement m (max_string_size a)) (measurements entry),
                        closed = False\<rparr>)"
    by auto
  have "files (fst ?r) (temp_of ?t) = None"
    using temp_of_neq[of ?t] by (simp add: fs)
  then show ?thesis
    using res fs
    by (cases ?r) (simp add: sync_file_within_budget[OF assms(1-3)] unlink_absent)
qed

lemma sync_file_ok:
  assumes "\<not> is_file w (make_local_path (output_dir a) entry)"
    and "makedirs_err env (parent (make_local_path (output_dir a) entry)) = None"
    and "cost_usd w \<le> cost_limit_usd a"
    and "open_err env (temp_of (make_local_path (output_dir a) entry)) = None"
    and "body_failure env entry (temp_of (make_local_path (output_dir a) entry)) = None"
    and "close_err env (temp_of (make_local_path (output_dir a) entry)) = None"
  shows "snd (sync_file env a entry w) = Inr (downloaded_message entry)
         \<and> files (fst (sync_file env a entry w))
             = ((files w)(temp_of (make_local_path (output_dir a) entry) := None))
                 (make_local_path (output_dir a) entry \<mapsto>
                    \<lparr>written = map (\<lambda>m. trim_measurement m (max_string_size a)) (measurements entry),
                     closed = True\<rparr>)"
proof -
  let ?t = "make_local_path (output_dir a) entry"
  let ?w2 = "log_event ReadCost (log_event (Makedirs (parent ?t)) (log_event (IsFile ?t) w))"
  let ?r = "try_block env a entry ?t (temp_of ?t) ?w2"
  from try_block_ok[OF assms(4-6), of a ?t ?w2]
  have res: "snd ?r = None"
    and fs: "files (fst ?r) = ((files w)(temp_of ?t := None))
               (?t \<mapsto> \<lparr>written = map (\<lambda>m. trim_measurement m (max_string_size a)) (measurements entry),
                        closed = True\<rparr>)"
    by auto
  then show ?thesis
    by (cases ?r) (simp add: sync_file_within_budget[OF assms(1-3)])
qed

subsection \<open>The example inputs\<close>

lemma example_local_basename: "local_basename (url_path example_entry) = ''web.0.jsonl.gz''"
proof -
  have "name (parse_path (url_path example_entry)) = ''web.0'' @ CHR ''.'' # ''tar'' @ CHR ''.'' # ''lz4''"
    by (simp add: example_entry_def name_def parse_path_def splitroot_def split_def)
  moreover have "\<not> endswith (''web.0'' @ CHR ''.'' # ''tar'' @ CHR ''.'' # ''lz4'') ''.jsonl.gz''"
    by (simp add: endswith_def suffix_to_prefix)
  moreover have "rsplit CHR ''.'' 2 (''web.0'' @ CHR ''.'' # ''tar'' @ CHR ''.'' # ''lz4'')
      = [''web.0'', ''tar'', ''lz4'']"
    by (rule rsplit_two) simp_all
  ultimately show ?thesis
    by (simp add: local_basename_def Let_def)
qed

lemma example_target_eq:
  "make_local_path (output_dir example_args) example_entry = example_target"
proof -
  have "strftime (date example_entry) = ''2021-03-07''"
    by (simp add: example_entry_def strftime_def digit_def)
  moreover have "is_segment ''XX''" "is_segment ''webconnectivity''" "is_segment ''2021-03-07''"
    "is_segment ''web.0.jsonl.gz''"
    by (simp_all add: is_segment_def)
  moreover have "country example_entry = ''XX''" "test_type example_entry = ''webconnectivity''"
    by (simp_all add: example_entry_def)
  ultimately show ?thesis
    by (simp add: make_local_path_def example_local_basename truediv_segment
          example_args_def example_target_def)
qed

lemma example_temp_eq: "temp_of example_target = example_temp"
  by (simp add: temp_of_def example_target_def example_temp_def name_def)

lemma example_parent:
  "parent example_target
   = \<lparr>root = ''/'', tail = [''data'', ''XX'', ''webconnectivity'', ''2021-03-07'']\<rparr>"
  by (simp add: parent_def example_target_def)

lemma example_trimmed:
  "map (\<lambda>m. trim_measurement m (max_string_size example_args)) (measurements example_entry)
   = [JDict [(''b'', JStr ''ok'')], JDict [(''b'', JNum 1)]]"
  by (simp add: example_args_def example_entry_def Let_def del_key_def)

subsection \<open>The events of one entry and of a run over budget\<close>

lemma unlink_trace: "trace (fst (unlink p w)) = trace w @ [Unlink p]"
  by (simp add: unlink_def Let_def split: option.splits)

lemma sync_file_events:
  fixes entry :: "'c file_entry" and a :: args
  defines "t \<equiv> make_local_path (output_dir a) entry"
  shows "new_events w (fst (sync_file env a entry w)) = [IsFile t]
         \<or> new_events w (fst (sync_file env a entry w)) = [IsFile t, Makedirs (parent t)]
         \<or> (\<exists>evs. new_events w (fst (sync_file env a entry w))
                    = IsFile t # Makedirs (parent t) # ReadCost # evs)"
proof (cases "is_file w t")
  case True
  then show ?thesis
    by (simp add: sync_file_skipped t_def new_events_def)
next
  case nf: False
  show ?thesis
  proof (cases "makedirs_err env (parent t)")
    case (Some e)
    with nf show ?thesis
      by (simp add: sync_file_makedirs_fails t_def new_events_def)
  next
    case md: None
    show ?thesis
    proof (cases "cost_usd w \<le> cost_limit_usd a")
      case False
      with nf md show ?thesis
        by (simp add: sync_file_over_budget t_def new_events_def)
    next
      case True
      let ?w2 = "log_event ReadCost (log_event (Makedirs (parent t)) (log_event (IsFile t) w))"
      let ?r = "try_block env a entry t (temp_of t) ?w2"
      from try_block_trace[of env a entry t "temp_of t" ?w2] obtain evs where
        tr: "trace (fst ?r) = trace w @ IsFile t # Makedirs (parent t) # ReadCost # GzipOpen (temp_of t) # evs"
        by auto
      have "\<exists>evs'. trace (fst (sync_file env a entry w))
              = trace w @ IsFile t # Makedirs (parent t) # ReadCost # evs'"
      proof (cases ?r)
        case (Pair w3 r3)
        show ?thesis
        proof (cases r3)
          case None
          with Pair tr show ?thesis
            using sync_file_within_budget[OF nf[unfolded t_def] md[unfolded t_def] True]
            by (simp add: t_def)
        next
          case (Some e)
          have "trace (fst (unlink (temp_of t) w3)) = trace w3 @ [Unlink (temp_of t)]"
            by (rule unlink_trace)
          with Pair tr Some show ?thesis
            using sync_file_within_budget[OF nf[unfolded t_def] md[unfolded t_def] True]
            by (cases "unlink (temp_of t) w3") (auto simp: t_def split: option.splits)
        qed
      qed
      then show ?thesis by (auto simp: new_events_def)
    qed
  qed
qed

lemma cost_read_first:
  assumes "\<not> is_download_event a" "\<not> is_download_event b"
    and "i < length (a # b # ReadCost # evs)"
    and "is_download_event ((a # b # ReadCost # evs) ! i)"
  shows "ReadCost \<in> set (take i (a # b # ReadCost # evs))"
proof (cases i)
  case 0
  with assms show ?thesis by simp
next
  case (Suc j)
  show ?thesis
  proof (cases j)
    case 0
    with Suc assms show ?thesis by simp
  next
    case (Suc k)
    with \<open>i = Suc j\<close> assms show ?thesis by (cases k) simp_all
  qed
qed

lemma imap_sync_over_budget:
  assumes "cost_usd w > cost_limit_usd a"
  shows "files (fst (imap_sync env a entries w)) = files w
         \<and> bytes_downloaded (fst (imap_sync env a entries w)) = bytes_downloaded w
         \<and> (\<exists>evs. trace (fst (imap_sync env a entries w)) = trace w @ evs
                  \<and> (\<forall>ev \<in> set evs. \<not> is_download_event ev))
         \<and> ((\<exists>e \<in> set entries. \<not> is_file w (make_local_path (output_dir a) e))
                \<longleftrightarrow> snd (imap_sync env a entries w) \<noteq> None)
         \<and> ((\<forall>e \<in> set entries.
                  makedirs_err env (parent (make_local_path (output_dir a) e)) = None)
              \<longrightarrow> snd (imap_sync env a entries w) =
                   (if \<exists>e \<in> set entries. \<not> is_file w (make_local_path (output_dir a) e)
                    then Some (CostLimitError (bytes_downloaded w)) else None))"
  using assms
proof (induction entries arbitrary: w)
  case Nil
  then show ?case by simp
next
  case (Cons entry rest)
  let ?t = "make_local_path (output_dir a) entry"
  show ?case
  proof (cases "is_file w ?t")
    case True
    let ?w' = "log_event (LogInfo (skipped_message entry)) (log_event (IsFile ?t) w)"
    have step: "imap_sync env a (entry # rest) w = imap_sync env a rest ?w'"
      using True by (simp add: sync_file_skipped)
    have c: "cost_usd ?w' > cost_limit_usd a" using Cons.prems(1) by simp
    from Cons.IH[OF c] obtain evs where
      f: "files (fst (imap_sync env a rest ?w')) = files w"
      and b: "bytes_downloaded (fst (imap_sync env a rest ?w')) = bytes_downloaded w"
      and tr: "trace (fst (imap_sync env a rest ?w')) = trace ?w' @ evs"
      and nd: "\<forall>ev \<in> set evs. \<not> is_download_event ev"
      and r1: "(\<exists>e \<in> set rest. \<not> is_file w (make_local_path (output_dir a) e))
                \<longleftrightarrow> snd (imap_sync env a rest ?w') \<noteq> None"
      and r2: "(\<forall>e \<in> set rest.
                  makedirs_err env (parent (make_local_path (output_dir a) e)) = None)
              \<longrightarrow> snd (imap_sync env a rest ?w') =
                   (if \<exists>e \<in> set rest. \<not> is_file w (make_local_path (output_dir a) e)
                    then Some (CostLimitError (bytes_downloaded w)) else None)"
      by auto
    have "trace (fst (imap_sync env a rest ?w'))
            = trace w @ (IsFile ?t # LogInfo (skipped_message entry) # evs)"
      using tr by simp
    moreover have "\<forall>ev \<in> set (IsFile ?t # LogInfo (skipped_message entry) # evs). \<not> is_download_event ev"
      using nd by simp
    ultimately have "\<exists>evs'. trace (fst (imap_sync env a rest ?w')) = trace w @ evs'
                  \<and> (\<forall>ev \<in> set evs'. \<not> is_download_event ev)"
      by blast
    with f b r1 r2 True show ?thesis
      unfolding step by simp
  next
    case False
    show ?thesis
    proof (cases "makedirs_err env (parent ?t)")
      case None
      have s: "sync_file env a entry w =
         (log_event ReadCost (log_event (Makedirs (parent ?t)) (log_event (IsFile ?t) w)),
          Inl (CostLimitError (bytes_downloaded w)))"
        by (rule sync_file_over_budget[OF False None Cons.prems(1)])
      have "trace (fst (imap_sync env a (entry # rest) w))
              = trace w @ [IsFile ?t, Makedirs (parent ?t), ReadCost]"
        by (simp add: s)
      moreover have "\<forall>ev \<in> set [IsFile ?t, Makedirs (parent ?t), ReadCost]. \<not> is_download_event ev"
        by simp
      ultimately have "\<exists>evs'. trace (fst (imap_sync env a (entry # rest) w)) = trace w @ evs'
                    \<and> (\<forall>ev \<in> set evs'. \<not> is_download_event ev)"
        by blast
      with False show ?thesis
        by (auto simp: s)
    next
      case (Some e)
      have s: "sync_file env a entry w =
         (log_event (Makedirs (parent ?t)) (log_event (IsFile ?t) w), Inl e)"
        by (rule sync_file_makedirs_fails[OF False Some])
      have "trace (fst (imap_sync env a (entry # rest) w))
              = trace w @ [IsFile ?t, Makedirs (parent ?t)]"
        by (simp add: s)
      moreover have "\<forall>ev \<in> set [IsFile ?t, Makedirs (parent ?t)]. \<not> is_download_event ev"
        by simp
      ultimately have "\<exists>evs'. trace (fst (imap_sync env a (entry # rest) w)) = trace w @ evs'
                    \<and> (\<forall>ev \<in> set evs'. \<not> is_download_event ev)"
        by blast
      with False Some show ?thesis
        by (auto simp: s)
    qed
  qed
qed

lemma sync_file_within_budget_opens:
  fixes entry :: "'c file_entry" and a :: args
  assumes "\<not> is_file w (make_local_path (output_dir a) entry)"
    and "makedirs_err env (parent (make_local_path (output_dir a) entry)) = None"
    and "cost_usd w \<le> cost_limit_usd a"
  shows "GzipOpen (temp_of (make_local_path (output_dir a) entry))
           \<in> set (new_events w (fst (sync_file env a entry w)))"
proof -
  let ?t = "make_local_path (output_dir a) entry"
  let ?w2 = "log_event ReadCost (log_event (Makedirs (parent ?t)) (log_event (IsFile ?t) w))"
  let ?r = "try_block env a entry ?t (temp_of ?t) ?w2"
  from try_block_trace[of env a entry ?t "temp_of ?t" ?w2] obtain evs where
    tr: "trace (fst ?r) = trace w @ IsFile ?t # Makedirs (parent ?t) # ReadCost # GzipOpen (temp_of ?t) # evs"
    by auto
  show ?thesis
  proof (cases ?r)
    case (Pair w3 r3)
    show ?thesis
    proof (cases r3)
      case None
      with Pair tr show ?thesis
        by (simp add: sync_file_within_budget[OF assms] new_events_def)
    next
      case (Some e)
      have "trace (fst (unlink (temp_of ?t) w3)) = trace w3 @ [Unlink (temp_of ?t)]"
        by (rule unlink_trace)
      with Pair tr Some show ?thesis
        by (cases "unlink (temp_of ?t) w3")
           (auto simp: sync_file_within_budget[OF assms] new_events_def split: option.splits)
    qed
  qed
qed

lemma example_run:
  "trace (fst (sync_file no_faults example_args example_entry empty_world))
   = [IsFile example_target, Makedirs (parent example_target), ReadCost, GzipOpen example_temp,
      GetMeasurements (url example_entry), Dump example_temp 0, Dump example_temp 1,
      Replace example_temp example_target, Close example_target]"
proof -
  have h1: "\<not> is_file empty_world (make_local_path (output_dir example_args) example_entry)"
    by (simp add: is_file_def empty_world_def)
  have h2: "makedirs_err no_faults
              (parent (make_local_path (output_dir example_args) example_entry)) = None"
    by (simp add: no_faults_def)
  have h3: "cost_usd empty_world \<le> cost_limit_usd example_args"
    by (simp add: empty_world_def example_args_def)
  have ms: "measurements example_entry = [JDict [(''a'', JStr ''xxxxx''), (''b'', JStr ''ok'')], JDict [(''b'', JNum 1)]]"
    and se: "stream_err example_entry = None"
    by (simp_all add: example_entry_def)
  show ?thesis
    unfolding sync_file_within_budget[OF h1 h2 h3] example_target_eq example_temp_eq
    by (simp add: try_block_def gzip_open_def with_body_def get_measurements_def ms se
          dump_line_def path_replace_def gzip_close_def no_faults_def Let_def empty_world_def)
qed


subsection \<open>Entries that are already on disk\<close>

text \<open>
  Claim C6. When the resolved local path of an entry names an existing file, \<^verbatim>\<open>sync_file\<close>
  returns the "Skipped existing" message and does nothing else: the only event is the
  \<^verbatim>\<open>is_file\<close> test (no directory is created, the cost is not read, nothing is opened,
  fetched or written), the files and the counters stay as they were, and the run goes on
  with the next entry after logging the message.
\<close>

theorem skip_existing:
  fixes entry :: "'c file_entry" and a :: args
  defines "target \<equiv> make_local_path (output_dir a) entry"
  assumes "is_file w target"
  shows "sync_file env a entry w = (w\<lparr>trace := trace w @ [IsFile target]\<rparr>, Inr (skipped_message entry))
         \<and> new_events w (fst (sync_file env a entry w)) = [IsFile target]
         \<and> files (fst (sync_file env a entry w)) = files w
         \<and> cost_usd (fst (sync_file env a entry w)) = cost_usd w
         \<and> bytes_downloaded (fst (sync_file env a entry w)) = bytes_downloaded w
         \<and> num_measurements (fst (sync_file env a entry w)) = num_measurements w
         \<and> imap_sync env a (entry # rest) w =
             imap_sync env a rest
               (w\<lparr>trace := trace w @ [IsFile target, LogInfo (skipped_message entry)]\<rparr>)"
  using assms(2) unfolding target_def
  by (simp add: sync_file_skipped new_events_def log_event_def)

theorem skip_existing_witness:
  "is_file (empty_world\<lparr>files := (\<lambda>p. None)(example_target \<mapsto> \<lparr>written = [], closed = True\<rparr>)\<rparr>)
     (make_local_path (output_dir example_args) example_entry)
   \<and> sync_file no_faults example_args example_entry
        (empty_world\<lparr>files := (\<lambda>p. None)(example_target \<mapsto> \<lparr>written = [], closed = True\<rparr>)\<rparr>)
      = (empty_world\<lparr>files := (\<lambda>p. None)(example_target \<mapsto> \<lparr>written = [], closed = True\<rparr>),
                     trace := [IsFile example_target]\<rparr>,
         Inr ''Skipped existing https://example.org/autoclaved/2021-03-07/web.0.tar.lz4]'')"
proof -
  let ?w = "empty_world\<lparr>files := (\<lambda>p. None)(example_target \<mapsto> \<lparr>written = [], closed = True\<rparr>)\<rparr>"
  have hyp: "is_file ?w (make_local_path (output_dir example_args) example_entry)"
    by (simp add: example_target_eq is_file_def)
  have msg: "skipped_message example_entry
      = ''Skipped existing https://example.org/autoclaved/2021-03-07/web.0.tar.lz4]''"
    by (simp add: skipped_message_def example_entry_def)
  from skip_existing[OF hyp, of no_faults "[]"]
  have "sync_file no_faults example_args example_entry ?w
        = (?w\<lparr>trace := trace ?w @ [IsFile example_target]\<rparr>, Inr (skipped_message example_entry))"
    by (simp add: example_target_eq)
  then show ?thesis
    using hyp by (simp add: msg empty_world_def)
qed

subsection \<open>Failures while an entry is written\<close>




text \<open>
  Claim C10. The handler of line 104 works only while the temporary file exists. When
  \<^verbatim>\<open>gzip.open\<close> fails and there is no file at the temporary path, or when the body of the
  \<^verbatim>\<open>with\<close> block ran through (so the file has been renamed to the target) and closing the
  stream fails, \<^verbatim>\<open>temp_path.unlink()\<close> raises \<^verbatim>\<open>FileNotFoundError\<close>, and that is the exception
  that leaves \<^verbatim>\<open>sync_file\<close> in place of the original one; in the second case the target
  holds the records with the stream not closed. With a stale file at the temporary path a
  failing \<^verbatim>\<open>gzip.open\<close> is handled as intended: the file is removed and the original
  exception goes on.
\<close>

theorem cleanup_masks_failure:
  fixes entry :: "'c file_entry" and a :: args
  defines "target \<equiv> make_local_path (output_dir a) entry"
  assumes "\<not> is_file w target"
    and "makedirs_err env (parent target) = None"
    and "cost_usd w \<le> cost_limit_usd a"
  shows "(open_err env (temp_of target) = Some e \<and> files w (temp_of target) = None \<longrightarrow>
            snd (sync_file env a entry w) = Inl (FileNotFoundError (temp_of target))
            \<and> files (fst (sync_file env a entry w)) = files w)
         \<and> (open_err env (temp_of target) = None \<and> body_failure env entry (temp_of target) = None
              \<and> close_err env (temp_of target) = Some e \<longrightarrow>
            snd (sync_file env a entry w) = Inl (FileNotFoundError (temp_of target))
            \<and> files (fst (sync_file env a entry w)) (temp_of target) = None
            \<and> files (fst (sync_file env a entry w)) target
                = Some \<lparr>written = map (\<lambda>m. trim_measurement m (max_string_size a)) (measurements entry),
                        closed = False\<rparr>)
         \<and> (open_err env (temp_of target) = Some e \<and> files w (temp_of target) \<noteq> None \<longrightarrow>
            snd (sync_file env a entry w) = Inl e
            \<and> files (fst (sync_file env a entry w)) (temp_of target) = None)"
proof -
  note h = assms(2-4)[unfolded target_def]
  have c1: "snd (sync_file env a entry w) = Inl (FileNotFoundError (temp_of target))
            \<and> files (fst (sync_file env a entry w)) = files w"
    if "open_err env (temp_of target) = Some e" "files w (temp_of target) = None"
    using sync_file_open_fails_absent[OF h, of e] that by (simp add: target_def)
  have c2: "snd (sync_file env a entry w) = Inl (FileNotFoundError (temp_of target))
            \<and> files (fst (sync_file env a entry w)) (temp_of target) = None
            \<and> files (fst (sync_file env a entry w)) target
                = Some \<lparr>written = map (\<lambda>m. trim_measurement m (max_string_size a)) (measurements entry),
                        closed = False\<rparr>"
    if "open_err env (temp_of target) = None" "body_failure env entry (temp_of target) = None"
       "close_err env (temp_of target) = Some e"
    using sync_file_close_fails[OF h, of e] that temp_of_neq[of target]
    by (simp add: target_def)
  have c3: "snd (sync_file env a entry w) = Inl e
            \<and> files (fst (sync_file env a entry w)) (temp_of target) = None"
    if "open_err env (temp_of target) = Some e" "files w (temp_of target) \<noteq> None"
  proof -
    from that(2) obtain f where "files w (temp_of target) = Some f" by auto
    with sync_file_open_fails_stale[OF h, of e f] that(1) show ?thesis
      by (simp add: target_def)
  qed
  from c1 c2 c3 show ?thesis by blast
qed

theorem cleanup_masks_failure_witness:
  "\<not> is_file empty_world (make_local_path (output_dir example_args) example_entry)
   \<and> cost_usd empty_world \<le> cost_limit_usd example_args
   \<and> open_err open_denied example_temp = Some (Failure 13)
   \<and> files empty_world example_temp = None
   \<and> snd (sync_file open_denied example_args example_entry empty_world)
       = Inl (FileNotFoundError example_temp)
   \<and> close_err disk_full_at_close example_temp = Some (Failure 28)
   \<and> body_failure disk_full_at_close example_entry example_temp = None
   \<and> snd (sync_file disk_full_at_close example_args example_entry empty_world)
       = Inl (FileNotFoundError example_temp)"
proof -
  have h1: "\<not> is_file empty_world (make_local_path (output_dir example_args) example_entry)"
    by (simp add: is_file_def empty_world_def)
  have h3: "cost_usd empty_world \<le> cost_limit_usd example_args"
    by (simp add: empty_world_def example_args_def)
  have d2: "makedirs_err open_denied
              (parent (make_local_path (output_dir example_args) example_entry)) = None"
    by (simp add: open_denied_def no_faults_def)
  have o1: "open_err open_denied example_temp = Some (Failure 13)"
    and o2: "files empty_world example_temp = None"
    by (simp_all add: open_denied_def no_faults_def empty_world_def)
  have f2: "makedirs_err disk_full_at_close
              (parent (make_local_path (output_dir example_args) example_entry)) = None"
    by (simp add: disk_full_at_close_def no_faults_def)
  have k1: "open_err disk_full_at_close example_temp = None"
    and k2: "body_failure disk_full_at_close example_entry example_temp = None"
    and k3: "close_err disk_full_at_close example_temp = Some (Failure 28)"
    by (simp_all add: disk_full_at_close_def no_faults_def body_failure_def example_entry_def)
  have A: "snd (sync_file open_denied example_args example_entry empty_world)
       = Inl (FileNotFoundError example_temp)"
    using cleanup_masks_failure[OF h1 d2 h3, of "Failure 13"] o1 o2
    by (simp add: example_target_eq example_temp_eq)
  have B: "snd (sync_file disk_full_at_close example_args example_entry empty_world)
       = Inl (FileNotFoundError example_temp)"
    using cleanup_masks_failure[OF h1 f2 h3, of "Failure 28"] k1 k2 k3
    by (simp add: example_target_eq example_temp_eq)
  show ?thesis
    by (rule conjI h1 h3 o1 o2 A k3 k2 B)+
qed

subsection \<open>The file at the target path\<close>

lemma target_valid_unless_close_fails:
  fixes entry :: "'c file_entry" and a :: args
  assumes "\<not> is_file w (make_local_path (output_dir a) entry)"
    and "close_err env (temp_of (make_local_path (output_dir a) entry)) = None"
  shows "valid_or_absent (fst (sync_file env a entry w)) (make_local_path (output_dir a) entry)"
proof -
  let ?t = "make_local_path (output_dir a) entry"
  have absent: "files w ?t = None" using assms(1) by (simp add: is_file_def)
  have ne: "?t \<noteq> temp_of ?t" using temp_of_neq[of ?t] by auto
  show ?thesis
  proof (cases "makedirs_err env (parent ?t)")
    case (Some e)
    with assms(1) absent show ?thesis
      by (simp add: sync_file_makedirs_fails valid_or_absent_def)
  next
    case None
    show ?thesis
    proof (cases "cost_usd w \<le> cost_limit_usd a")
      case False
      with assms(1) None absent show ?thesis
        by (simp add: sync_file_over_budget valid_or_absent_def)
    next
      case True
      note h = assms(1) None True
      show ?thesis
      proof (cases "open_err env (temp_of ?t)")
        case (Some e)
        show ?thesis
        proof (cases "files w (temp_of ?t)")
          case None
          with sync_file_open_fails_absent[OF h Some None] absent show ?thesis
            by (simp add: valid_or_absent_def)
        next
          case (Some f)
          with sync_file_open_fails_stale[OF h \<open>open_err env (temp_of ?t) = Some e\<close> Some]
            absent ne show ?thesis
            by (simp add: valid_or_absent_def)
        qed
      next
        case None
        note op = None
        show ?thesis
        proof (cases "body_failure env entry (temp_of ?t)")
          case (Some e)
          with sync_file_body_fails[OF h op Some] absent ne show ?thesis
            by (simp add: valid_or_absent_def)
        next
          case None
          with sync_file_ok[OF h op None assms(2)] show ?thesis
            by (simp add: valid_or_absent_def)
        qed
      qed
    qed
  qed
qed

text \<open>
  Claim C1. The claim fails when closing the stream fails after the rename: line 103 runs
  inside the \<^verbatim>\<open>with\<close> block, so the file is at the target before its stream is closed.
  On the example entry, with an environment in which only the close fails, the run of
  \<^verbatim>\<open>sync_file\<close> ends with the target holding both records in a stream that was never
  closed, and with \<^verbatim>\<open>FileNotFoundError\<close> from the cleanup. (When the close does not fail the
  target is absent or complete, lemma \<open>target_valid_unless_close_fails\<close>.)
\<close>

theorem partial_file_at_target:
  "files (fst (sync_file disk_full_at_close example_args example_entry empty_world)) example_target
     = Some \<lparr>written = [JDict [(''b'', JStr ''ok'')], JDict [(''b'', JNum 1)]], closed = False\<rparr>
   \<and> \<not> valid_or_absent (fst (sync_file disk_full_at_close example_args example_entry empty_world))
         example_target
   \<and> files (fst (sync_file disk_full_at_close example_args example_entry empty_world)) example_temp
       = None
   \<and> snd (sync_file disk_full_at_close example_args example_entry empty_world)
       = Inl (FileNotFoundError example_temp)"
proof -
  have h1: "\<not> is_file empty_world (make_local_path (output_dir example_args) example_entry)"
    by (simp add: is_file_def empty_world_def)
  have h2: "makedirs_err disk_full_at_close
              (parent (make_local_path (output_dir example_args) example_entry)) = None"
    by (simp add: disk_full_at_close_def no_faults_def)
  have h3: "cost_usd empty_world \<le> cost_limit_usd example_args"
    by (simp add: empty_world_def example_args_def)
  have h4: "open_err disk_full_at_close
              (temp_of (make_local_path (output_dir example_args) example_entry)) = None"
    and h5: "body_failure disk_full_at_close example_entry
              (temp_of (make_local_path (output_dir example_args) example_entry)) = None"
    and h6: "close_err disk_full_at_close
              (temp_of (make_local_path (output_dir example_args) example_entry)) = Some (Failure 28)"
    by (simp_all add: disk_full_at_close_def no_faults_def body_failure_def example_entry_def)
  have ne: "example_target \<noteq> example_temp"
    using temp_of_neq[of example_target] by (simp add: example_temp_eq)
  from sync_file_close_fails[OF h1 h2 h3 h4 h5 h6] ne show ?thesis
    by (simp add: example_target_eq example_temp_eq example_trimmed valid_or_absent_def)
qed

subsection \<open>The budget check\<close>

text \<open>
  Claim C2. In every run of \<^verbatim>\<open>sync_file\<close> the cost is read before anything is opened,
  fetched, written or renamed. For an entry that is not skipped (and whose directories
  could be created) a cost strictly above \<^verbatim>\<open>cost_limit_usd\<close> raises \<^verbatim>\<open>CostLimitError\<close> right
  after the read, while a cost equal to the limit lets the entry go on to open its
  temporary file. So a run that starts above its limit and has an entry that is not yet
  on disk ends with status 1, with the files as they were and without any event of a
  download; the exception is \<^verbatim>\<open>CostLimitError\<close> whenever the directories could be created.
\<close>

theorem budget_check:
  fixes entry :: "'c file_entry" and a :: args and w w0 :: "'c world" and env :: env
  defines "target \<equiv> make_local_path (output_dir a) entry"
  defines "evs \<equiv> new_events w (fst (sync_file env a entry w))"
  shows "(\<forall>i < length evs. is_download_event (evs ! i) \<longrightarrow> ReadCost \<in> set (take i evs))
    \<and> (\<not> is_file w target \<and> makedirs_err env (parent target) = None
         \<and> cost_usd w > cost_limit_usd a \<longrightarrow>
        sync_file env a entry w =
          (w\<lparr>trace := trace w @ [IsFile target, Makedirs (parent target), ReadCost]\<rparr>,
           Inl (CostLimitError (bytes_downloaded w))))
    \<and> (\<not> is_file w target \<and> makedirs_err env (parent target) = None
         \<and> cost_usd w \<le> cost_limit_usd a \<longrightarrow>
        GzipOpen (temp_of target) \<in> set evs)
    \<and> (cost_usd w0 > cost_limit_usd a
         \<and> (\<exists>e \<in> set file_entries. \<not> is_file w0 (make_local_path (output_dir a) e)) \<longrightarrow>
        exit_status (snd (main env a file_entries w0)) = 1
        \<and> files (fst (main env a file_entries w0)) = files w0
        \<and> (\<forall>ev \<in> set (new_events w0 (fst (main env a file_entries w0))).
              \<not> is_download_event ev)
        \<and> ((\<forall>e \<in> set file_entries.
                makedirs_err env (parent (make_local_path (output_dir a) e)) = None) \<longrightarrow>
             snd (main env a file_entries w0) = Some (CostLimitError (bytes_downloaded w0))))"
proof -
  have order: "\<forall>i < length evs. is_download_event (evs ! i) \<longrightarrow> ReadCost \<in> set (take i evs)"
  proof (intro allI impI)
    fix i assume i: "i < length evs" and d: "is_download_event (evs ! i)"
    from sync_file_events[of w env a entry]
    consider "evs = [IsFile target]" | "evs = [IsFile target, Makedirs (parent target)]"
      | evs' where "evs = IsFile target # Makedirs (parent target) # ReadCost # evs'"
      unfolding evs_def target_def by blast
    then show "ReadCost \<in> set (take i evs)"
    proof cases
      case 1
      with i d show ?thesis by simp
    next
      case 2
      with i d show ?thesis by (cases i) simp_all
    next
      case 3
      with i d show ?thesis by (simp only: cost_read_first[of "IsFile target" "Makedirs (parent target)"] is_download_event.simps not_False_eq_True)
    qed
  qed
  have over: "sync_file env a entry w =
          (w\<lparr>trace := trace w @ [IsFile target, Makedirs (parent target), ReadCost]\<rparr>,
           Inl (CostLimitError (bytes_downloaded w)))"
    if "\<not> is_file w target" "makedirs_err env (parent target) = None" "cost_usd w > cost_limit_usd a"
    using sync_file_over_budget[OF that[unfolded target_def]]
    by (simp add: target_def log_event_def)
  have within: "GzipOpen (temp_of target) \<in> set evs"
    if "\<not> is_file w target" "makedirs_err env (parent target) = None" "cost_usd w \<le> cost_limit_usd a"
    using sync_file_within_budget_opens[OF that[unfolded target_def]]
    by (simp add: target_def evs_def)
  have run: "exit_status (snd (main env a file_entries w0)) = 1
        \<and> files (fst (main env a file_entries w0)) = files w0
        \<and> (\<forall>ev \<in> set (new_events w0 (fst (main env a file_entries w0))).
              \<not> is_download_event ev)
        \<and> ((\<forall>e \<in> set file_entries.
                makedirs_err env (parent (make_local_path (output_dir a) e)) = None) \<longrightarrow>
             snd (main env a file_entries w0) = Some (CostLimitError (bytes_downloaded w0)))"
    if c: "cost_usd w0 > cost_limit_usd a"
      and ex: "\<exists>e \<in> set file_entries. \<not> is_file w0 (make_local_path (output_dir a) e)"
  proof -
    let ?w = "w0\<lparr>num_measurements := 0\<rparr>"
    let ?r = "imap_sync env a file_entries ?w"
    have c': "cost_usd ?w > cost_limit_usd a" using c by simp
    from imap_sync_over_budget[OF c', of env file_entries] ex obtain es x where
      f: "files (fst ?r) = files w0"
      and tr: "trace (fst ?r) = trace w0 @ es"
      and nd: "\<forall>ev \<in> set es. \<not> is_download_event ev"
      and r: "snd ?r = Some x"
      and r2: "(\<forall>e \<in> set file_entries.
                makedirs_err env (parent (make_local_path (output_dir a) e)) = None)
               \<longrightarrow> snd ?r = Some (CostLimitError (bytes_downloaded w0))"
      by auto
    then show ?thesis
      by (cases ?r) (auto simp: main_def exit_status_def new_events_def)
  qed
  from order over within run show ?thesis by blast
qed

theorem budget_check_witness:
  "cost_usd spent_world > cost_limit_usd zero_budget_args
   \<and> cost_limit_usd zero_budget_args = 0
   \<and> \<not> is_file spent_world (make_local_path (output_dir zero_budget_args) example_entry)
   \<and> example_entry \<in> set [example_entry]
   \<and> sync_file no_faults zero_budget_args example_entry spent_world
       = (spent_world\<lparr>trace := [IsFile example_target, Makedirs (parent example_target), ReadCost]\<rparr>,
          Inl (CostLimitError 0))
   \<and> snd (main no_faults zero_budget_args [example_entry] spent_world) = Some (CostLimitError 0)
   \<and> exit_status (snd (main no_faults zero_budget_args [example_entry] spent_world)) = 1
   \<and> files (fst (main no_faults zero_budget_args [example_entry] spent_world)) = (\<lambda>p. None)
   \<and> cost_usd empty_world \<le> cost_limit_usd example_args
   \<and> (3::nat) < length (new_events empty_world
                        (fst (sync_file no_faults example_args example_entry empty_world)))
   \<and> is_download_event (new_events empty_world
        (fst (sync_file no_faults example_args example_entry empty_world)) ! 3)
   \<and> ReadCost \<in> set (take 3 (new_events empty_world
        (fst (sync_file no_faults example_args example_entry empty_world))))"
proof -
  have t0: "make_local_path (output_dir zero_budget_args) example_entry = example_target"
    using example_target_eq by (simp add: zero_budget_args_def example_args_def)
  have c: "cost_usd spent_world > cost_limit_usd zero_budget_args"
    and z: "cost_limit_usd zero_budget_args = 0"
    by (simp_all add: spent_world_def zero_budget_args_def empty_world_def)
  have nf: "\<not> is_file spent_world (make_local_path (output_dir zero_budget_args) example_entry)"
    by (simp add: is_file_def spent_world_def empty_world_def)
  have md: "makedirs_err no_faults
              (parent (make_local_path (output_dir zero_budget_args) example_entry)) = None"
    by (simp add: no_faults_def)
  have mem: "example_entry \<in> set [example_entry]" by simp
  have all_md: "\<forall>e \<in> set [example_entry].
      makedirs_err no_faults (parent (make_local_path (output_dir zero_budget_args) e)) = None"
    by (simp add: no_faults_def)
  have ex: "\<exists>e \<in> set [example_entry].
      \<not> is_file spent_world (make_local_path (output_dir zero_budget_args) e)"
    using nf by simp
  note T = budget_check[where env = no_faults and a = zero_budget_args and entry = example_entry
      and w = spent_world and ?w0.0 = spent_world and file_entries = "[example_entry]"]
  have A: "sync_file no_faults zero_budget_args example_entry spent_world
       = (spent_world\<lparr>trace := [IsFile example_target, Makedirs (parent example_target), ReadCost]\<rparr>,
          Inl (CostLimitError 0))"
    using T[THEN conjunct2, THEN conjunct1, rule_format, OF conjI[OF nf conjI[OF md c]]]
    by (simp add: t0 spent_world_def empty_world_def)
  have run: "exit_status (snd (main no_faults zero_budget_args [example_entry] spent_world)) = 1
        \<and> files (fst (main no_faults zero_budget_args [example_entry] spent_world)) = files spent_world
        \<and> (\<forall>ev \<in> set (new_events spent_world
                (fst (main no_faults zero_budget_args [example_entry] spent_world))).
              \<not> is_download_event ev)
        \<and> ((\<forall>e \<in> set [example_entry].
                makedirs_err no_faults (parent (make_local_path (output_dir zero_budget_args) e)) = None) \<longrightarrow>
             snd (main no_faults zero_budget_args [example_entry] spent_world)
               = Some (CostLimitError (bytes_downloaded spent_world)))"
    by (rule T[THEN conjunct2, THEN conjunct2, THEN conjunct2, rule_format,
          OF conjI[OF c ex]])
  have B: "snd (main no_faults zero_budget_args [example_entry] spent_world) = Some (CostLimitError 0)"
    using run[THEN conjunct2, THEN conjunct2, THEN conjunct2, THEN mp, OF all_md]
    by (simp add: spent_world_def empty_world_def)
  have C: "exit_status (snd (main no_faults zero_budget_args [example_entry] spent_world)) = 1"
    by (rule run[THEN conjunct1])
  have D: "files (fst (main no_faults zero_budget_args [example_entry] spent_world)) = (\<lambda>p. None)"
    using run[THEN conjunct2, THEN conjunct1] by (simp add: spent_world_def empty_world_def)
  have le: "cost_usd empty_world \<le> cost_limit_usd example_args"
    by (simp add: empty_world_def example_args_def)
  have evs: "new_events empty_world (fst (sync_file no_faults example_args example_entry empty_world))
      = [IsFile example_target, Makedirs (parent example_target), ReadCost, GzipOpen example_temp,
         GetMeasurements (url example_entry), Dump example_temp 0, Dump example_temp 1,
         Replace example_temp example_target, Close example_target]"
    by (simp add: new_events_def example_run) (simp add: empty_world_def)
  have len: "(3::nat) < length (new_events empty_world
                        (fst (sync_file no_faults example_args example_entry empty_world)))"
    by (simp add: evs)
  have dl: "is_download_event (new_events empty_world
        (fst (sync_file no_faults example_args example_entry empty_world)) ! 3)"
    by (simp add: evs numeral_3_eq_3)
  have E: "ReadCost \<in> set (take 3 (new_events empty_world
        (fst (sync_file no_faults example_args example_entry empty_world))))"
    by (rule budget_check[where env = no_faults and a = example_args and entry = example_entry
          and w = empty_world, THEN conjunct1, rule_format, OF len dl])
  show ?thesis
    by (rule conjI c z nf mem A B C D le len dl E)+
qed

end
